theory Spec2Isabelle
  imports Complex_Main "HOL-Library.AList"
begin

section \<open>Data model\<close>

text \<open>
  User and item identifiers stored in a ratings container are strings. An interaction is
  a row (user, item, score); prediction and rank containers hold rows of the same shape.
\<close>

type_synonym user_id = string
type_synonym item_id = string

record interaction =
  user_id :: user_id
  item_id :: item_id
  score :: real

text \<open>
  Modelled from the spec: the \<open>Ratings\<close>, \<open>Prediction\<close> and \<open>Rank\<close> classes
  (\<open>clayrs.content_analyzer.ratings_manager.ratings\<close>) are imported by the sources but
  are not among them. The spec describes them as ordered collections of interaction
  records with column projection, user-indexed lookup, and construction from a flat list
  of per-user partial results that keeps every record in emission order.
\<close>

type_synonym ratings = "interaction list"

definition user_id_column :: "ratings \<Rightarrow> user_id list" where
  "user_id_column rs = map user_id rs"

definition item_id_column :: "ratings \<Rightarrow> item_id list" where
  "item_id_column rs = map item_id rs"

definition get_user_interactions :: "ratings \<Rightarrow> user_id \<Rightarrow> ratings" where
  "get_user_interactions rs u = filter (\<lambda>r. user_id r = u) rs"

definition from_list :: "interaction list \<Rightarrow> ratings" where
  "from_list rs = rs"

text \<open>The exceptions the sources raise or catch, each with its message.\<close>

datatype error =
    UserSkipAlgFit string
  | NotFittedAlg string
  | NotPredictionAlg string
  | NotRankingAlg string
  | ValueError string
  | KeyError string

section \<open>Python values the orchestration receives\<close>

text \<open>
  The optional \<open>user_id_list\<close> argument is an untyped Python list: its elements may be
  strings or other objects (integers). \<open>py_str\<close> is Python's \<open>str()\<close> on them.
\<close>

datatype pyid = PInt int | PStr string

definition digit_char :: "nat \<Rightarrow> char" where
  "digit_char d = ''0123456789'' ! d"

fun str_nat :: "nat \<Rightarrow> string" where
  "str_nat n = (if n < 10 then [digit_char n] else str_nat (n div 10) @ [digit_char (n mod 10)])"

declare str_nat.simps [simp del]

definition str_int :: "int \<Rightarrow> string" where
  "str_int i = (if i < 0 then CHR ''-'' # str_nat (nat (- i)) else str_nat (nat i))"

fun py_str :: "pyid \<Rightarrow> string" where
  "py_str (PInt i) = str_int i"
| "py_str (PStr s) = s"

definition repr_n_recs :: "int option \<Rightarrow> string" where
  "repr_n_recs n = (case n of None \<Rightarrow> ''None'' | Some k \<Rightarrow> str_int k)"

text \<open>
  A Python \<open>set\<close> built from a list keeps one occurrence of every element and is iterated
  in an order the language does not specify. The operations below take that order as a
  parameter \<open>it\<close>: \<open>it xs\<close> is the sequence in which \<open>set(xs)\<close> is iterated.
  \<open>set_iteration it\<close> says that \<open>it\<close> enumerates each set once.
\<close>

type_synonym set_iter = "pyid list \<Rightarrow> pyid list"

definition set_iteration :: "set_iter \<Rightarrow> bool" where
  "set_iteration it = (\<forall>xs. distinct (it xs) \<and> set (it xs) = set xs)"

text \<open>
  A Python \<open>dict\<close> is an association list with distinct keys in insertion order;
  \<open>d[k] = v\<close> is \<open>AList.update k v d\<close>, and \<open>d.get(k)\<close> on a dictionary whose values may
  be \<open>None\<close> returns \<open>None\<close> both for a missing key and for a key bound to \<open>None\<close>.
\<close>

definition dict_get :: "('k \<times> 'v option) list \<Rightarrow> 'k \<Rightarrow> 'v option" where
  "dict_get d k = (case map_of d k of None \<Rightarrow> None | Some v \<Rightarrow> v)"

text \<open>
  A \<open>for\<close> loop whose body may raise and otherwise extends an accumulated list: the
  first exception leaves the loop.
\<close>

fun for_loop ::
  "('st \<Rightarrow> 'x \<Rightarrow> error + ('r list \<times> 'st)) \<Rightarrow> 'st \<Rightarrow> 'r list \<Rightarrow> 'x list
     \<Rightarrow> error + ('r list \<times> 'st)" where
  "for_loop body st acc [] = Inr (acc, st)"
| "for_loop body st acc (x # xs) =
     (case body st x of
        Inl e \<Rightarrow> Inl e
      | Inr (r, st') \<Rightarrow> for_loop body st' (acc @ r) xs)"

section \<open>Collaborators of the orchestration\<close>

text \<open>
  \<open>ContentBasedAlgorithm\<close> is an abstract class: \<open>process_rated\<close> and \<open>fit\<close> store their
  results in private attributes of the instance, \<open>predict\<close> and \<open>rank\<close> return a frame of
  scored items. An algorithm class is the record of its methods over the type \<open>'s\<close> of
  instance states; a method that mutates the instance returns the exception it raised,
  if any, together with the state the instance is left in.
\<close>

record ('s, 'c) content_based_algorithm =
  load_available_contents :: "'s \<Rightarrow> string \<Rightarrow> item_id set \<Rightarrow> 'c"
  alg_process_rated :: "'s \<Rightarrow> ratings \<Rightarrow> 'c \<Rightarrow> error option \<times> 's"
  alg_fit :: "'s \<Rightarrow> error option \<times> 's"
  alg_predict :: "'s \<Rightarrow> ratings \<Rightarrow> 'c \<Rightarrow> item_id set option \<Rightarrow> error + interaction list"
  alg_rank :: "'s \<Rightarrow> ratings \<Rightarrow> 'c \<Rightarrow> int option \<Rightarrow> item_id set option
                 \<Rightarrow> error + interaction list"

text \<open>
  Modelled from the spec: the \<open>Methodology\<close> classes (\<open>clayrs.recsys.methodology\<close>) are
  not among the sources. The spec gives the contract \<open>filter_single(user, train, test)\<close>
  and \<open>filter_all(train, test)\<close>, pure functions of their inputs; the "test-ratings"
  strategy takes as candidates the items the user rated in the test store.
\<close>

record methodology =
  filter_single :: "user_id \<Rightarrow> ratings \<Rightarrow> ratings \<Rightarrow> item_id list"
  filter_all :: "ratings \<Rightarrow> ratings \<Rightarrow> (user_id \<times> item_id list) list"
  repr_methodology :: string

definition TestRatingsMethodology :: methodology where
  "TestRatingsMethodology =
     \<lparr>filter_single = (\<lambda>u train test. item_id_column (get_user_interactions test u)),
      filter_all = (\<lambda>train test.
         map (\<lambda>u. (u, item_id_column (get_user_interactions test u)))
             (remdups (user_id_column test))),
      repr_methodology = ''TestRatingsMethodology()''\<rparr>"

text \<open>
  The calls of \<open>logger.warning\<close> in the sources, one constructor per call site, with the
  values interpolated into the message. Info-level messages and progress-bar captions are
  not recorded.
\<close>

datatype log_record =
    Warning_no_alg_will_be_fitted string user_id
      \<comment> \<open>\<open>str(e) + "\nNo algorithm will be fitted for the user {user_id}"\<close>\<close>
  | Warning_cant_be_fitted string user_id
      \<comment> \<open>\<open>str(e) + "\nThe algorithm can't be fitted for the user {user_id}"\<close>\<close>
  | Warning_no_alg_fitted user_id
      \<comment> \<open>\<open>"No algorithm fitted for user {user_id}! It will be skipped"\<close>\<close>
  | Warning_no_items_ranked_any
      \<comment> \<open>\<open>"No items could be ranked for any users! ..."\<close>\<close>
  | Warning_no_items_ranked_for "pyid set"
      \<comment> \<open>\<open>"No items could be ranked for users {all_users - set(...)} ..."\<close>\<close>

section \<open>\<open>ContentBasedRS\<close> (clayrs/recsys/recsys.py)\<close>

text \<open>
  Algorithm instances are mutable objects, and the orchestration holds references to
  them: \<open>heap\<close> is the store of instance states, an address is an index into it.
  \<open>deepcopy\<close> allocates a new instance. \<open>invoked\<close> is a history of the calls of
  \<open>process_rated\<close> and \<open>fit\<close>: the method, the address of the receiving instance, the
  user the call is made for, and the state of the instance when the call is made.
  Python has no dangling references: the states considered are those whose addresses lie
  within the heap, and the theorems say so of \<open>algorithm\<close> where they depend on it.
\<close>

datatype meth = Process_rated | Fit

record 's call =
  invoked_method :: meth
  target :: nat
  for_user :: user_id
  pre_state :: 's

record 's content_based_rs =
  heap :: "'s list"
  algorithm :: nat
  train_set :: ratings
  items_directory :: string
  users_directory :: "string option"
  user_fit_dic :: "(user_id \<times> nat option) list"
  yaml_report :: "(string \<times> string) list option"
  logger :: "log_record list"
  invoked :: "'s call list"

definition ContentBasedRS_init ::
  "'s \<Rightarrow> ratings \<Rightarrow> string \<Rightarrow> string option \<Rightarrow> 's content_based_rs" where
  "ContentBasedRS_init alg train items_dir users_dir =
     \<lparr>heap = [alg], algorithm = 0, train_set = train, items_directory = items_dir,
      users_directory = users_dir, user_fit_dic = [], yaml_report = None, logger = [],
      invoked = []\<rparr>"

definition deepcopy :: "'s content_based_rs \<Rightarrow> nat \<Rightarrow> nat \<times> 's content_based_rs" where
  "deepcopy st a = (length (heap st), st\<lparr>heap := heap st @ [heap st ! a]\<rparr>)"

definition call_process_rated ::
  "('s, 'c) content_based_algorithm \<Rightarrow> 's content_based_rs \<Rightarrow> nat \<Rightarrow> user_id \<Rightarrow> ratings \<Rightarrow> 'c
     \<Rightarrow> error option \<times> 's content_based_rs" where
  "call_process_rated A st a u user_train loaded =
     (let (e, s') = alg_process_rated A (heap st ! a) user_train loaded
      in (e, st\<lparr>heap := (heap st)[a := s'],
                invoked := invoked st @
                  [\<lparr>invoked_method = Process_rated, target = a, for_user = u, pre_state = heap st ! a\<rparr>]\<rparr>))"

definition call_fit ::
  "('s, 'c) content_based_algorithm \<Rightarrow> 's content_based_rs \<Rightarrow> nat \<Rightarrow> user_id
     \<Rightarrow> error option \<times> 's content_based_rs" where
  "call_fit A st a u =
     (let (e, s') = alg_fit A (heap st ! a)
      in (e, st\<lparr>heap := (heap st)[a := s'],
                invoked := invoked st @
                  [\<lparr>invoked_method = Fit, target = a, for_user = u, pre_state = heap st ! a\<rparr>]\<rparr>))"

subsection \<open>\<open>fit\<close>\<close>

definition fit_except ::
  "'s content_based_rs \<Rightarrow> user_id \<Rightarrow> error \<Rightarrow> error + (interaction list \<times> 's content_based_rs)" where
  "fit_except st u e =
     (case e of
        UserSkipAlgFit msg \<Rightarrow>
          Inr ([], st\<lparr>logger := logger st @ [Warning_no_alg_will_be_fitted msg u],
                      user_fit_dic := AList.update u None (user_fit_dic st)\<rparr>)
      | _ \<Rightarrow> Inl e)"

definition fit_user ::
  "('s, 'c) content_based_algorithm \<Rightarrow> 'c \<Rightarrow> 's content_based_rs \<Rightarrow> user_id
     \<Rightarrow> error + (interaction list \<times> 's content_based_rs)" where
  "fit_user A loaded st u =
     (let user_train = get_user_interactions (train_set st) u;
          (user_alg, st1) = deepcopy st (algorithm st);
          (e1, st2) = call_process_rated A st1 user_alg u user_train loaded
      in case e1 of
           Some e \<Rightarrow> fit_except st2 u e
         | None \<Rightarrow>
             (let (e2, st3) = call_fit A st2 user_alg u
              in case e2 of
                   Some e \<Rightarrow> fit_except st3 u e
                 | None \<Rightarrow>
                     Inr ([], st3\<lparr>user_fit_dic :=
                                    AList.update u (Some user_alg) (user_fit_dic st3)\<rparr>)))"

text \<open>
  \<open>fit\<close> iterates over \<open>set(self.train_set.user_id_column)\<close>, a set of strings, and uses
  the identifiers as they are; \<open>pbar\<close> is that set in the order of iteration. The method
  returns \<open>self\<close>: the model returns the state it leaves.
\<close>

definition ContentBasedRS_fit ::
  "set_iter \<Rightarrow> ('s, 'c) content_based_algorithm \<Rightarrow> 's content_based_rs
     \<Rightarrow> error + 's content_based_rs" where
  "ContentBasedRS_fit it A st =
     (let items_to_load = set (item_id_column (train_set st));
          loaded = load_available_contents A (heap st ! algorithm st) (items_directory st)
                     items_to_load;
          pbar = map py_str (it (map PStr (user_id_column (train_set st))))
      in case for_loop (fit_user A loaded) st [] pbar of
           Inl e \<Rightarrow> Inl e
         | Inr (_, st') \<Rightarrow> Inr st')"

subsection \<open>\<open>rank\<close> and \<open>predict\<close>\<close>

definition filter_list_of ::
  "methodology option \<Rightarrow> user_id \<Rightarrow> ratings \<Rightarrow> ratings \<Rightarrow> item_id set option" where
  "filter_list_of m u train test =
     (case m of
        None \<Rightarrow> None
      | Some M \<Rightarrow> Some (set (filter_single M u train test)))"

definition repr_methodology_opt :: "methodology option \<Rightarrow> string" where
  "repr_methodology_opt m = (case m of None \<Rightarrow> ''None'' | Some M \<Rightarrow> repr_methodology M)"

definition all_users_of :: "set_iter \<Rightarrow> ratings \<Rightarrow> pyid list option \<Rightarrow> pyid list" where
  "all_users_of it test_set user_id_list =
     it (case user_id_list of
           None \<Rightarrow> map PStr (user_id_column test_set)
         | Some l \<Rightarrow> l)"

definition not_fit_message :: string where
  "not_fit_message = ''Algorithm not fit! You must call the fit() method first, or fit_rank().''"

definition rank_user ::
  "('s, 'c) content_based_algorithm \<Rightarrow> 'c \<Rightarrow> ratings \<Rightarrow> int option \<Rightarrow> methodology option
     \<Rightarrow> 's content_based_rs \<Rightarrow> pyid \<Rightarrow> error + (interaction list \<times> 's content_based_rs)" where
  "rank_user A loaded test_set n_recs m st uid =
     (let u = py_str uid;
          user_train = get_user_interactions (train_set st) u;
          filter_list = filter_list_of m u (train_set st) test_set;
          user_fitted_alg = dict_get (user_fit_dic st) u
      in case user_fitted_alg of
           Some a \<Rightarrow>
             (case alg_rank A (heap st ! a) user_train loaded n_recs filter_list of
                Inl e \<Rightarrow> Inl e
              | Inr user_rank \<Rightarrow> Inr (user_rank, st))
         | None \<Rightarrow> Inr ([], st\<lparr>logger := logger st @ [Warning_no_alg_fitted u]\<rparr>))"

definition ContentBasedRS_rank ::
  "set_iter \<Rightarrow> ('s, 'c) content_based_algorithm \<Rightarrow> 's content_based_rs \<Rightarrow> ratings
     \<Rightarrow> int option \<Rightarrow> pyid list option \<Rightarrow> methodology option
     \<Rightarrow> error + (ratings \<times> 's content_based_rs)" where
  "ContentBasedRS_rank it A st test_set n_recs user_id_list m =
     (if length (user_fit_dic st) = 0 then Inl (NotFittedAlg not_fit_message)
      else
        (let all_users = all_users_of it test_set user_id_list;
             loaded = load_available_contents A (heap st ! algorithm st) (items_directory st) {}
         in case for_loop (rank_user A loaded test_set n_recs m) st [] all_users of
              Inl e \<Rightarrow> Inl e
            | Inr (rank, st') \<Rightarrow>
                Inr (from_list rank,
                     st'\<lparr>yaml_report := Some [(''mode'', ''rank''),
                                              (''n_recs'', repr_n_recs n_recs),
                                              (''methodology'', repr_methodology_opt m)]\<rparr>)))"

definition predict_user ::
  "('s, 'c) content_based_algorithm \<Rightarrow> 'c \<Rightarrow> ratings \<Rightarrow> methodology option
     \<Rightarrow> 's content_based_rs \<Rightarrow> pyid \<Rightarrow> error + (interaction list \<times> 's content_based_rs)" where
  "predict_user A loaded test_set m st uid =
     (let u = py_str uid;
          user_train = get_user_interactions (train_set st) u;
          filter_list = filter_list_of m u (train_set st) test_set;
          user_fitted_alg = dict_get (user_fit_dic st) u
      in case user_fitted_alg of
           Some a \<Rightarrow>
             (case alg_predict A (heap st ! a) user_train loaded filter_list of
                Inl e \<Rightarrow> Inl e
              | Inr user_pred \<Rightarrow> Inr (user_pred, st))
         | None \<Rightarrow> Inr ([], st\<lparr>logger := logger st @ [Warning_no_alg_fitted u]\<rparr>))"

definition ContentBasedRS_predict ::
  "set_iter \<Rightarrow> ('s, 'c) content_based_algorithm \<Rightarrow> 's content_based_rs \<Rightarrow> ratings
     \<Rightarrow> pyid list option \<Rightarrow> methodology option
     \<Rightarrow> error + (ratings \<times> 's content_based_rs)" where
  "ContentBasedRS_predict it A st test_set user_id_list m =
     (if length (user_fit_dic st) = 0 then Inl (NotFittedAlg not_fit_message)
      else
        (let all_users = all_users_of it test_set user_id_list;
             loaded = load_available_contents A (heap st ! algorithm st) (items_directory st) {}
         in case for_loop (predict_user A loaded test_set m) st [] all_users of
              Inl e \<Rightarrow> Inl e
            | Inr (pred, st') \<Rightarrow>
                Inr (from_list pred,
                     st'\<lparr>yaml_report := Some [(''mode'', ''score_prediction''),
                                              (''methodology'', repr_methodology_opt m)]\<rparr>)))"

subsection \<open>\<open>fit_predict\<close> and \<open>fit_rank\<close>\<close>

text \<open>
  The \<open>try\<close> block of both loops: with \<open>save_fit\<close> the instance is a deep copy, entered
  in \<open>_user_fit_dic\<close> before it is fitted; without it the instance is \<open>self.algorithm\<close>.
  The result is the exception raised, if any, the address of the instance, and the state.
\<close>

definition try_fit ::
  "('s, 'c) content_based_algorithm \<Rightarrow> 'c \<Rightarrow> 's content_based_rs \<Rightarrow> bool \<Rightarrow> user_id \<Rightarrow> ratings
     \<Rightarrow> error option \<times> nat \<times> 's content_based_rs" where
  "try_fit A loaded st save_fit u user_train =
     (let (alg, st1) =
            (if save_fit then
               (let (user_alg, s) = deepcopy st (algorithm st)
                in (user_alg, s\<lparr>user_fit_dic := AList.update u (Some user_alg) (user_fit_dic s)\<rparr>))
             else (algorithm st, st));
          (e1, st2) = call_process_rated A st1 alg u user_train loaded
      in case e1 of
           Some e \<Rightarrow> (Some e, alg, st2)
         | None \<Rightarrow> (let (e2, st3) = call_fit A st2 alg u in (e2, alg, st3)))"

text \<open>The \<open>except UserSkipAlgFit\<close> clause of both loops, ending in \<open>continue\<close>.\<close>

definition skip_except ::
  "'s content_based_rs \<Rightarrow> bool \<Rightarrow> user_id \<Rightarrow> error
     \<Rightarrow> error + (interaction list \<times> 's content_based_rs)" where
  "skip_except st save_fit u e =
     (case e of
        UserSkipAlgFit msg \<Rightarrow>
          (let st1 = st\<lparr>logger := logger st @ [Warning_cant_be_fitted msg u]\<rparr>
           in Inr ([], if save_fit
                       then st1\<lparr>user_fit_dic := AList.update u None (user_fit_dic st1)\<rparr>
                       else st1))
      | _ \<Rightarrow> Inl e)"

definition fit_predict_user ::
  "('s, 'c) content_based_algorithm \<Rightarrow> 'c \<Rightarrow> ratings \<Rightarrow> methodology option \<Rightarrow> bool
     \<Rightarrow> 's content_based_rs \<Rightarrow> pyid \<Rightarrow> error + (interaction list \<times> 's content_based_rs)" where
  "fit_predict_user A loaded test_set m save_fit st uid =
     (let u = py_str uid;
          user_train = get_user_interactions (train_set st) u;
          (e, alg, st1) = try_fit A loaded st save_fit u user_train
      in case e of
           Some e \<Rightarrow> skip_except st1 save_fit u e
         | None \<Rightarrow>
             (let filter_list = filter_list_of m u (train_set st1) test_set
              in case alg_predict A (heap st1 ! alg) user_train loaded filter_list of
                   Inl e \<Rightarrow> Inl e
                 | Inr user_pred \<Rightarrow> Inr (user_pred, st1)))"

definition ContentBasedRS_fit_predict ::
  "set_iter \<Rightarrow> ('s, 'c) content_based_algorithm \<Rightarrow> 's content_based_rs \<Rightarrow> ratings
     \<Rightarrow> pyid list option \<Rightarrow> methodology option \<Rightarrow> bool
     \<Rightarrow> error + (ratings \<times> 's content_based_rs)" where
  "ContentBasedRS_fit_predict it A st test_set user_id_list m save_fit =
     (let all_users = all_users_of it test_set user_id_list;
          loaded = load_available_contents A (heap st ! algorithm st) (items_directory st) {}
      in case for_loop (fit_predict_user A loaded test_set m save_fit) st [] all_users of
           Inl e \<Rightarrow> Inl e
         | Inr (pred, st') \<Rightarrow>
             Inr (from_list pred,
                  st'\<lparr>yaml_report := Some [(''mode'', ''score_prediction''),
                                           (''methodology'', repr_methodology_opt m)]\<rparr>))"

definition fit_rank_user ::
  "('s, 'c) content_based_algorithm \<Rightarrow> 'c \<Rightarrow> ratings \<Rightarrow> int option \<Rightarrow> methodology option \<Rightarrow> bool
     \<Rightarrow> 's content_based_rs \<Rightarrow> pyid \<Rightarrow> error + (interaction list \<times> 's content_based_rs)" where
  "fit_rank_user A loaded test_set n_recs m save_fit st uid =
     (let u = py_str uid;
          user_train = get_user_interactions (train_set st) u;
          (e, alg, st1) = try_fit A loaded st save_fit u user_train
      in case e of
           Some e \<Rightarrow> skip_except st1 save_fit u e
         | None \<Rightarrow>
             (let filter_list = filter_list_of m u (train_set st1) test_set
              in case alg_rank A (heap st1 ! alg) user_train loaded n_recs filter_list of
                   Inl e \<Rightarrow> Inl e
                 | Inr user_rank \<Rightarrow> Inr (user_rank, st1)))"

definition ContentBasedRS_fit_rank ::
  "set_iter \<Rightarrow> ('s, 'c) content_based_algorithm \<Rightarrow> 's content_based_rs \<Rightarrow> ratings
     \<Rightarrow> int option \<Rightarrow> pyid list option \<Rightarrow> methodology option \<Rightarrow> bool
     \<Rightarrow> error + (ratings \<times> 's content_based_rs)" where
  "ContentBasedRS_fit_rank it A st test_set n_recs user_id_list m save_fit =
     (let all_users = all_users_of it test_set user_id_list;
          loaded = load_available_contents A (heap st ! algorithm st) (items_directory st) {}
      in case for_loop (fit_rank_user A loaded test_set n_recs m save_fit) st [] all_users of
           Inl e \<Rightarrow> Inl e
         | Inr (rank, st') \<Rightarrow>
             Inr (from_list rank,
                  st'\<lparr>yaml_report := Some [(''mode'', ''rank''),
                                           (''n_recs'', repr_n_recs n_recs),
                                           (''methodology'', repr_methodology_opt m)]\<rparr>))"

section \<open>\<open>GraphBasedRS\<close> (clayrs/recsys/recsys.py)\<close>

text \<open>
  Modelled from the spec: \<open>FullDiGraph\<close> and \<open>GraphBasedAlgorithm\<close> are not among the
  sources. The graph records interactions that \<open>to_ratings\<close> turns into a train store;
  the algorithm scores or ranks a batch of users against the graph in one call.
\<close>

record full_digraph =
  recorded :: ratings
  repr_graph :: string

definition to_ratings :: "full_digraph \<Rightarrow> ratings" where
  "to_ratings g = recorded g"

type_synonym filter_dict = "(user_id \<times> item_id list) list"

record graph_based_algorithm =
  graph_predict :: "pyid list \<Rightarrow> full_digraph \<Rightarrow> filter_dict option \<Rightarrow> error + interaction list"
  graph_rank :: "pyid list \<Rightarrow> full_digraph \<Rightarrow> int option \<Rightarrow> filter_dict option
                   \<Rightarrow> error + interaction list"

record graph_based_rs =
  graph :: full_digraph
  graph_yaml_report :: "(string \<times> string) list option"
  graph_logger :: "log_record list"

definition filter_dict_of :: "methodology option \<Rightarrow> full_digraph \<Rightarrow> ratings \<Rightarrow> filter_dict option" where
  "filter_dict_of m g test_set =
     (case m of
        None \<Rightarrow> None
      | Some M \<Rightarrow> Some (filter_all M (to_ratings g) test_set))"

definition GraphBasedRS_predict ::
  "set_iter \<Rightarrow> graph_based_algorithm \<Rightarrow> graph_based_rs \<Rightarrow> ratings \<Rightarrow> pyid list option
     \<Rightarrow> methodology option \<Rightarrow> error + (ratings \<times> graph_based_rs)" where
  "GraphBasedRS_predict it G st test_set user_id_list m =
     (let all_users = all_users_of it test_set user_id_list;
          filter_dict = filter_dict_of m (graph st) test_set
      in case graph_predict G all_users (graph st) filter_dict of
           Inl e \<Rightarrow> Inl e
         | Inr total_predict_list \<Rightarrow>
             Inr (from_list total_predict_list,
                  st\<lparr>graph_yaml_report := Some [(''graph'', repr_graph (graph st)),
                                                (''mode'', ''score_prediction''),
                                                (''methodology'', repr_methodology_opt m)]\<rparr>))"

definition GraphBasedRS_rank ::
  "set_iter \<Rightarrow> graph_based_algorithm \<Rightarrow> graph_based_rs \<Rightarrow> ratings \<Rightarrow> int option
     \<Rightarrow> pyid list option \<Rightarrow> methodology option \<Rightarrow> error + (ratings \<times> graph_based_rs)" where
  "GraphBasedRS_rank it G st test_set n_recs user_id_list m =
     (let all_users = all_users_of it test_set user_id_list;
          filter_dict = filter_dict_of m (graph st) test_set
      in case graph_rank G all_users (graph st) n_recs filter_dict of
           Inl e \<Rightarrow> Inl e
         | Inr total_rank_list \<Rightarrow>
             (let total_rank = from_list total_rank_list;
                  warned =
                    (if length total_rank = 0 then [Warning_no_items_ranked_any]
                     else if length (remdups (user_id_column total_rank))
                               \<noteq> length (remdups all_users)
                     then [Warning_no_items_ranked_for
                             (set all_users - PStr ` set (user_id_column total_rank))]
                     else [])
              in Inr (total_rank,
                      st\<lparr>graph_logger := graph_logger st @ warned,
                         graph_yaml_report := Some [(''graph'', repr_graph (graph st)),
                                                   (''mode'', ''rank''),
                                                   (''n_recs'', repr_n_recs n_recs),
                                                   (''methodology'', repr_methodology_opt m)]\<rparr>)))"

section \<open>\<open>MetricEvaluator.eval_metrics\<close> (orange_cb_recsys/evaluation/eval_pipeline_modules/metric_evaluator.py)\<close>

text \<open>
  A split holds two frames with the columns \<open>from_id\<close>, \<open>to_id\<close>, \<open>score\<close>. Split objects
  are shared between the caller, the evaluator and the metrics, so they live in a store
  and are referred to by address (an index into the store).
\<close>

record frame_row =
  from_id :: string
  to_id :: string
  rating :: real

type_synonym frame = "frame_row list"

record split =
  pred :: frame
  truth :: frame

text \<open>
  A metric computes a result frame from a split; \<open>_get_pred_truth_list\<close> gives the splits
  of the metric's own when the evaluator was built without a split list. Result frames
  are pandas frames of type \<open>'f\<close>; the pandas operations on them are parameters.
  \<open>pd.concat\<close> on an empty list raises \<open>ValueError\<close>, and \<open>.loc[['sys']]\<close> raises
  \<open>KeyError\<close> when no row is labelled \<open>sys\<close>.
\<close>

record 'f metric =
  perform :: "split \<Rightarrow> 'f"
  get_pred_truth_list :: "nat list"

record 'f pandas =
  concat_rows :: "'f list \<Rightarrow> 'f"
  concat_columns :: "'f list \<Rightarrow> 'f"
  frame_empty :: "'f \<Rightarrow> bool"
  groupby_from_id_mean :: "'f \<Rightarrow> 'f"
  loc_sys :: "'f \<Rightarrow> error + 'f"
  drop_sys :: "'f \<Rightarrow> 'f"
  dropna_columns :: "'f \<Rightarrow> 'f"

definition pd_concat :: "('f list \<Rightarrow> 'f) \<Rightarrow> 'f list \<Rightarrow> error + 'f" where
  "pd_concat conc fs =
     (if fs = [] then Inl (ValueError ''No objects to concatenate'') else Inr (conc fs))"

text \<open>The body of the loop over the splits, for one split.\<close>

definition eval_split ::
  "'f metric \<Rightarrow> split list \<times> 'f list \<Rightarrow> nat \<Rightarrow> split list \<times> 'f list" where
  "eval_split mt sr a =
     (let (store, metric_result_list) = sr;
          sp = store ! a
      in if \<not> (pred sp = []) \<and> \<not> (truth sp = []) then
           (let from_id_valid = map from_id (pred sp);
                sp' = sp\<lparr>truth := filter (\<lambda>r. from_id r \<in> set from_id_valid) (truth sp)\<rparr>;
                metric_result = perform mt sp'
            in (store[a := sp'], metric_result_list @ [metric_result]))
         else (store, metric_result_list))"

fun eval_splits ::
  "'f metric \<Rightarrow> split list \<times> 'f list \<Rightarrow> nat list \<Rightarrow> split list \<times> 'f list" where
  "eval_splits mt sr [] = sr"
| "eval_splits mt sr (a # as) = eval_splits mt (eval_split mt sr a) as"

text \<open>The loop over the metrics; an exception leaves it with the store as it is then.\<close>

fun eval_metrics_loop ::
  "'f pandas \<Rightarrow> nat list option \<Rightarrow> split list \<Rightarrow> 'f list \<Rightarrow> 'f metric list
     \<Rightarrow> (error + 'f list) \<times> split list" where
  "eval_metrics_loop P sl store frames_to_concat [] = (Inr frames_to_concat, store)"
| "eval_metrics_loop P sl store frames_to_concat (mt # mts) =
     (let split_list = (case sl of None \<Rightarrow> get_pred_truth_list mt | Some l \<Rightarrow> l);
          (store', metric_result_list) = eval_splits mt (store, []) split_list
      in case pd_concat (concat_rows P) metric_result_list of
           Inl e \<Rightarrow> (Inl e, store')
         | Inr total_results_metric \<Rightarrow>
             (if \<not> frame_empty P total_results_metric
              then eval_metrics_loop P sl store'
                     (frames_to_concat @ [groupby_from_id_mean P total_results_metric]) mts
              else eval_metrics_loop P sl store' frames_to_concat mts))"

definition eval_metrics ::
  "'f pandas \<Rightarrow> nat list option \<Rightarrow> split list \<Rightarrow> 'f metric list
     \<Rightarrow> (error + ('f \<times> 'f)) \<times> split list" where
  "eval_metrics P sl store metric_list =
     (case eval_metrics_loop P sl store [] metric_list of
        (Inl e, store') \<Rightarrow> (Inl e, store')
      | (Inr frames_to_concat, store') \<Rightarrow>
          (case pd_concat (concat_columns P) frames_to_concat of
             Inl e \<Rightarrow> (Inl e, store')
           | Inr final_result \<Rightarrow>
               (case loc_sys P final_result of
                  Inl e \<Rightarrow> (Inl e, store')
                | Inr system_results \<Rightarrow>
                    (Inr (system_results, dropna_columns P (drop_sys P final_result)),
                     store'))))"

section \<open>\<open>EvalModel.__init__\<close> (clayrs/evaluation/eval_model.py)\<close>

record ('p, 't, 'm) eval_model =
  pred_list :: "'p list"
  truth_list :: "'t list"
  metric_list :: "'m list"
  yaml_report_result :: "string option"

definition EvalModel_init ::
  "'p list \<Rightarrow> 't list \<Rightarrow> 'm list \<Rightarrow> error + ('p, 't, 'm) eval_model" where
  "EvalModel_init preds truths metrics =
     (if length preds = 0 \<and> length truths = 0 then
        Inl (ValueError ''List containing predictions and list containing ground truths are empty!'')
      else if length preds \<noteq> length truths then
        Inl (ValueError ''List containing predictions and list containing ground truths must have the same length!'')
      else
        Inr \<lparr>pred_list = preds, truth_list = truths, metric_list = metrics,
             yaml_report_result = None\<rparr>)"

definition raises_ValueError :: "error + 'a \<Rightarrow> bool" where
  "raises_ValueError r = (case r of Inl (ValueError _) \<Rightarrow> True | _ \<Rightarrow> False)"

section \<open>Notions used in the statements\<close>

text \<open>
  The fit attempt of one user, as the \<open>try\<close> block of \<open>fit\<close> makes it: \<open>process_rated\<close>
  and then \<open>fit\<close>, starting from the state \<open>s\<close> of the instance they are invoked on. The
  result is the exception raised, if any, and the state the instance is left in.
\<close>

definition fit_attempt ::
  "('s, 'c) content_based_algorithm \<Rightarrow> 'c \<Rightarrow> 's \<Rightarrow> ratings \<Rightarrow> error option \<times> 's" where
  "fit_attempt A loaded s user_train =
     (let (e1, s1) = alg_process_rated A s user_train loaded
      in case e1 of
           Some e \<Rightarrow> (Some e, s1)
         | None \<Rightarrow> alg_fit A s1)"

definition is_UserSkipAlgFit :: "error \<Rightarrow> bool" where
  "is_UserSkipAlgFit e = (case e of UserSkipAlgFit _ \<Rightarrow> True | _ \<Rightarrow> False)"

text \<open>The calls that attempt makes on the instance at address \<open>a\<close>, for the user \<open>u\<close>.\<close>

definition attempt_calls ::
  "('s, 'c) content_based_algorithm \<Rightarrow> 'c \<Rightarrow> nat \<Rightarrow> user_id \<Rightarrow> 's \<Rightarrow> ratings \<Rightarrow> 's call list" where
  "attempt_calls A loaded a u s user_train =
     (let (e1, s1) = alg_process_rated A s user_train loaded
      in \<lparr>invoked_method = Process_rated, target = a, for_user = u, pre_state = s\<rparr> #
         (case e1 of
            Some e \<Rightarrow> []
          | None \<Rightarrow> [\<lparr>invoked_method = Fit, target = a, for_user = u, pre_state = s1\<rparr>]))"

text \<open>
  The fit attempt \<open>fit\<close> makes for the user \<open>u\<close> from the recommender state \<open>st\<close>: on the
  state of the base algorithm, with the user's train interactions and the contents
  \<open>fit\<close> loads.
\<close>

definition fit_outcome ::
  "('s, 'c) content_based_algorithm \<Rightarrow> 's content_based_rs \<Rightarrow> user_id \<Rightarrow> error option \<times> 's" where
  "fit_outcome A st u =
     fit_attempt A
       (load_available_contents A (heap st ! algorithm st) (items_directory st)
          (set (item_id_column (train_set st))))
       (heap st ! algorithm st)
       (get_user_interactions (train_set st) u)"

text \<open>
  \<open>registered A st st' u\<close>: the registry of \<open>st'\<close> holds for \<open>u\<close> what the fit attempt
  made from \<open>st\<close> gives: the sentinel \<open>None\<close> when it raised, and otherwise an instance
  allocated after \<open>st\<close> that is in the state the attempt left its instance in.
\<close>

definition registered ::
  "('s, 'c) content_based_algorithm \<Rightarrow> 's content_based_rs \<Rightarrow> 's content_based_rs \<Rightarrow> user_id
     \<Rightarrow> bool" where
  "registered A st st' u =
     (case fst (fit_outcome A st u) of
        Some e \<Rightarrow> map_of (user_fit_dic st') u = Some None
      | None \<Rightarrow>
          (\<exists>a. map_of (user_fit_dic st') u = Some (Some a) \<and> length (heap st) \<le> a
               \<and> a < length (heap st') \<and> heap st' ! a = snd (fit_outcome A st u)))"

definition skips_or_fits :: "error option \<times> 's \<Rightarrow> bool" where
  "skips_or_fits r = (case fst r of None \<Rightarrow> True | Some e \<Rightarrow> is_UserSkipAlgFit e)"

text \<open>
  \<open>base_kept st s\<close>: the state \<open>s\<close> has the algorithm, the train set and the items
  directory of \<open>st\<close>, and every instance of \<open>st\<close> is in \<open>s\<close> as it was.
\<close>

definition base_kept :: "'s content_based_rs \<Rightarrow> 's content_based_rs \<Rightarrow> bool" where
  "base_kept st s =
     (algorithm s = algorithm st \<and> train_set s = train_set st
      \<and> items_directory s = items_directory st
      \<and> algorithm st < length (heap st)
      \<and> take (length (heap st)) (heap s) = heap st)"

definition raises_NotFittedAlg :: "error + 'a \<Rightarrow> bool" where
  "raises_NotFittedAlg r = (case r of Inl (NotFittedAlg _) \<Rightarrow> True | _ \<Rightarrow> False)"

definition records_of :: "error + ('r \<times> 'st) \<Rightarrow> error + 'r" where
  "records_of r = (case r of Inl e \<Rightarrow> Inl e | Inr (rs, st) \<Rightarrow> Inr rs)"

text \<open>Two states of the recommender that differ at most in the log and the report.\<close>

definition logger_variant :: "'s content_based_rs \<Rightarrow> 's content_based_rs \<Rightarrow> bool" where
  "logger_variant a b =
     (heap b = heap a \<and> algorithm b = algorithm a \<and> train_set b = train_set a
      \<and> items_directory b = items_directory a \<and> user_fit_dic b = user_fit_dic a
      \<and> invoked b = invoked a)"

definition new_calls :: "'s content_based_rs \<Rightarrow> 's content_based_rs \<Rightarrow> 's call list" where
  "new_calls st st' = drop (length (invoked st)) (invoked st')"

text \<open>
  A call is made on a fresh deep copy of the base algorithm of \<open>st\<close> when its receiver was
  allocated after \<open>st\<close> and, for \<open>process_rated\<close>, is in the state of the base algorithm.
\<close>

definition on_fresh_copy :: "'s content_based_rs \<Rightarrow> 's call \<Rightarrow> bool" where
  "on_fresh_copy st c =
     (length (heap st) \<le> target c \<and> target c \<noteq> algorithm st
      \<and> (invoked_method c = Process_rated \<longrightarrow> pre_state c = heap st ! algorithm st))"

definition isolated :: "'s content_based_rs \<Rightarrow> 's call list \<Rightarrow> bool" where
  "isolated st cs =
     ((\<forall>c \<in> set cs. on_fresh_copy st c)
      \<and> (\<forall>c \<in> set cs. \<forall>d \<in> set cs. for_user c \<noteq> for_user d \<longrightarrow> target c \<noteq> target d))"

definition user_records :: "ratings \<Rightarrow> user_id \<Rightarrow> interaction list" where
  "user_records rs u = filter (\<lambda>r. user_id r = u) rs"

definition non_increasing :: "real list \<Rightarrow> bool" where
  "non_increasing xs = sorted_wrt (\<lambda>a b. b \<le> a) xs"

text \<open>
  The truth of a split restricted to the users that have predictions, and the splits an
  evaluation visits: the evaluator's split list, or the lists of the metrics when the
  evaluator has none.
\<close>

definition truth_of_predicted :: "split \<Rightarrow> split" where
  "truth_of_predicted sp =
     sp\<lparr>truth := filter (\<lambda>r. from_id r \<in> set (map from_id (pred sp))) (truth sp)\<rparr>"

definition splits_of :: "nat list option \<Rightarrow> 'f metric \<Rightarrow> nat list" where
  "splits_of sl mt = (case sl of None \<Rightarrow> get_pred_truth_list mt | Some l \<Rightarrow> l)"

definition evaluated_splits :: "nat list option \<Rightarrow> 'f metric list \<Rightarrow> nat list" where
  "evaluated_splits sl ms = concat (map (splits_of sl) ms)"

text \<open>
  The contract of an algorithm's \<open>rank\<close>: the records are those of the user whose
  interactions it was given, by descending score, and at most \<open>n\<close> of them when a cutoff
  \<open>n\<close> is given.
\<close>

definition rank_contract :: "('s, 'c) content_based_algorithm \<Rightarrow> bool" where
  "rank_contract A =
     (\<forall>s tr c n f rs. alg_rank A s tr c n f = Inr rs \<longrightarrow>
        non_increasing (map score rs)
        \<and> (\<forall>k. n = Some k \<longrightarrow> 0 \<le> k \<longrightarrow> int (length rs) \<le> k)
        \<and> (\<forall>r \<in> set rs. user_id r \<in> set (user_id_column tr)))"

section \<open>An example algorithm\<close>

text \<open>
  A small content-based algorithm for the concrete runs below. \<open>process_rated\<close> raises
  \<open>UserSkipAlgFit\<close> for a user without a score of at least 2 and otherwise adds the user's ratings to
  the ones the instance holds; \<open>fit\<close> stores the sum of the held scores; \<open>predict\<close> gives
  every rated item that passes the filter its own score plus the fitted value; \<open>rank\<close>
  sorts those predictions by descending score and keeps the first \<open>n\<close>.
\<close>

record toy_state =
  rated :: ratings
  fitted :: "real option"

definition passes :: "item_id set option \<Rightarrow> item_id \<Rightarrow> bool" where
  "passes f i = (case f of None \<Rightarrow> True | Some F \<Rightarrow> i \<in> F)"

definition toy_predict :: "toy_state \<Rightarrow> ratings \<Rightarrow> unit \<Rightarrow> item_id set option \<Rightarrow> interaction list" where
  "toy_predict s user_train c f =
     map (\<lambda>r. r\<lparr>score := score r + (case fitted s of None \<Rightarrow> 0 | Some v \<Rightarrow> v)\<rparr>)
         (filter (\<lambda>r. passes f (item_id r)) user_train)"

definition top_n :: "int option \<Rightarrow> 'a list \<Rightarrow> 'a list" where
  "top_n n xs = (case n of None \<Rightarrow> xs | Some k \<Rightarrow> take (nat k) xs)"

definition toy_alg :: "(toy_state, unit) content_based_algorithm" where
  "toy_alg =
     \<lparr>load_available_contents = (\<lambda>s dir items. ()),
      alg_process_rated = (\<lambda>s user_train c.
         if filter (\<lambda>r. 2 \<le> score r) user_train = []
         then (Some (UserSkipAlgFit ''no positive items''), s)
         else (None, s\<lparr>rated := rated s @ user_train\<rparr>)),
      alg_fit = (\<lambda>s. (None, s\<lparr>fitted := Some (sum_list (map score (rated s)))\<rparr>)),
      alg_predict = (\<lambda>s user_train c f. Inr (toy_predict s user_train c f)),
      alg_rank = (\<lambda>s user_train c n f.
         Inr (top_n n (sort_key (\<lambda>r. - score r) (toy_predict s user_train c f))))\<rparr>"

definition toy_init :: toy_state where
  "toy_init = \<lparr>rated = [], fitted = None\<rparr>"

definition row :: "user_id \<Rightarrow> item_id \<Rightarrow> real \<Rightarrow> interaction" where
  "row u i x = \<lparr>user_id = u, item_id = i, score = x\<rparr>"

definition toy_train :: ratings where
  "toy_train = [row ''1'' ''a'' 3, row ''1'' ''b'' 5, row ''2'' ''a'' 1, row ''4'' ''c'' 4]"

definition toy_test :: ratings where
  "toy_test = [row ''1'' ''a'' 4, row ''1'' ''b'' 2, row ''2'' ''a'' 2, row ''3'' ''c'' 1,
               row ''4'' ''c'' 2]"

definition toy_rs :: "toy_state content_based_rs" where
  "toy_rs = ContentBasedRS_init toy_init toy_train ''items_dir'' None"

text \<open>The example recommender after \<open>fit\<close>.\<close>

definition toy_fitted :: "toy_state content_based_rs" where
  "toy_fitted = (case ContentBasedRS_fit remdups toy_alg toy_rs of Inr st \<Rightarrow> st | Inl e \<Rightarrow> toy_rs)"

text \<open>\<open>fit_predict\<close> on the example recommender, without and with \<open>save_fit\<close>.\<close>

definition toy_fit_predict_shared :: "error + (ratings \<times> toy_state content_based_rs)" where
  "toy_fit_predict_shared =
     ContentBasedRS_fit_predict remdups toy_alg toy_rs toy_test None
       (Some TestRatingsMethodology) False"

definition toy_fit_predict_saved :: "error + (ratings \<times> toy_state content_based_rs)" where
  "toy_fit_predict_saved =
     ContentBasedRS_fit_predict remdups toy_alg toy_rs toy_test None
       (Some TestRatingsMethodology) True"

text \<open>The string forms of a list of identifiers.\<close>

definition string_forms :: "pyid list \<Rightarrow> pyid list" where
  "string_forms ids = map (\<lambda>i. PStr (py_str i)) ids"

text \<open>
  A graph-based algorithm for the concrete runs: it scores, for each requested user, the
  items the graph records for that user, so a user without a node gets no record.
\<close>

definition toy_graph_alg :: graph_based_algorithm where
  "toy_graph_alg =
     \<lparr>graph_predict = (\<lambda>us g f.
         Inr (concat (map (\<lambda>u. get_user_interactions (recorded g) (py_str u)) us))),
      graph_rank = (\<lambda>us g n f.
         Inr (concat (map (\<lambda>u. top_n n (sort_key (\<lambda>r. - score r)
                                   (get_user_interactions (recorded g) (py_str u)))) us)))\<rparr>"

definition toy_graph_rs :: graph_based_rs where
  "toy_graph_rs =
     \<lparr>graph = \<lparr>recorded = toy_train, repr_graph = ''FullDiGraph''\<rparr>,
      graph_yaml_report = None, graph_logger = []\<rparr>"

text \<open>
  An evaluation for the concrete runs: result frames are lists of labelled values, a
  metric reports under \<open>sys\<close> the number of truth rows and one value per prediction row.
\<close>

definition toy_pandas :: "(string \<times> real) list pandas" where
  "toy_pandas =
     \<lparr>concat_rows = concat,
      concat_columns = concat,
      frame_empty = (\<lambda>f. f = []),
      groupby_from_id_mean = (\<lambda>f. f),
      loc_sys = (\<lambda>f. if ''sys'' \<in> fst ` set f then Inr (filter (\<lambda>r. fst r = ''sys'') f)
                     else Inl (KeyError ''sys'')),
      drop_sys = filter (\<lambda>r. fst r \<noteq> ''sys''),
      dropna_columns = (\<lambda>f. f)\<rparr>"

definition toy_metric :: "(string \<times> real) list metric" where
  "toy_metric =
     \<lparr>perform = (\<lambda>sp. (''sys'', real (length (truth sp))) # map (\<lambda>r. (from_id r, 1)) (pred sp)),
      get_pred_truth_list = [0]\<rparr>"

definition frow :: "string \<Rightarrow> string \<Rightarrow> real \<Rightarrow> frame_row" where
  "frow u i x = \<lparr>from_id = u, to_id = i, rating = x\<rparr>"

definition toy_store :: "split list" where
  "toy_store =
     [\<lparr>pred = [frow ''u1'' ''a'' 4], truth = [frow ''u1'' ''a'' 5, frow ''u2'' ''b'' 3]\<rparr>,
      \<lparr>pred = [], truth = [frow ''u3'' ''c'' 1]\<rparr>]"

section \<open>Properties of \<open>EvalModel.__init__\<close>\<close>

text \<open>
  C8. Constructing an EvalModel raises a ValueError if and only if the predictions list
  and the ground-truth list have different lengths or are both empty; for every pair of
  equal-length non-empty lists the constructor succeeds and stores both lists unmodified.
\<close>

theorem EvalModel_init_ValueError_iff:
  "raises_ValueError (EvalModel_init preds truths metrics)
     = (length preds \<noteq> length truths \<or> (preds = [] \<and> truths = []))
   \<and> (length preds = length truths \<and> preds \<noteq> [] \<longrightarrow>
        (\<exists>m. EvalModel_init preds truths metrics = Inr m
             \<and> pred_list m = preds \<and> truth_list m = truths))"
  by (auto simp: EvalModel_init_def raises_ValueError_def)

theorem EvalModel_init_ValueError_iff_witness:
  "raises_ValueError (EvalModel_init [1::nat] ([]::nat list) ([]::nat list))
   \<and> raises_ValueError (EvalModel_init ([]::nat list) ([]::nat list) ([]::nat list))
   \<and> (\<exists>m. EvalModel_init [1::nat, 2] [3::nat, 4] ([]::nat list) = Inr m
          \<and> pred_list m = [1, 2] \<and> truth_list m = [3, 4])"
  using EvalModel_init_ValueError_iff [of "[1::nat]" "[]::nat list" "[]::nat list"]
        EvalModel_init_ValueError_iff [of "[]::nat list" "[]::nat list" "[]::nat list"]
        EvalModel_init_ValueError_iff [of "[1::nat, 2]" "[3::nat, 4]" "[]::nat list"]
  by simp

subsection \<open>The loop\<close>

lemma for_loop_append:
  "for_loop body st acc (xs @ ys) =
     (case for_loop body st acc xs of
        Inl e \<Rightarrow> Inl e
      | Inr (acc', st') \<Rightarrow> for_loop body st' acc' ys)"
  by (induction xs arbitrary: st acc) (auto split: sum.splits)

lemma for_loop_Inl:
  "for_loop body st acc xs = Inl e \<Longrightarrow> \<exists>s x. x \<in> set xs \<and> body s x = Inl e"
proof (induction xs arbitrary: st acc)
  case Nil
  then show ?case by simp
next
  case (Cons x xs)
  show ?case
  proof (cases "body st x")
    case (Inl e')
    then have "body st x = Inl e" using Cons.prems by simp
    then show ?thesis by (intro exI [of _ st] exI [of _ x]) simp
  next
    case (Inr p)
    then obtain r s1 where "for_loop body s1 (acc @ r) xs = Inl e"
      using Cons.prems by (cases p) auto
    from Cons.IH [OF this] obtain s y where "y \<in> set xs" "body s y = Inl e" by blast
    then show ?thesis by (intro exI [of _ s] exI [of _ y]) simp
  qed
qed

lemma for_loop_invariant:
  assumes "for_loop body st acc xs = Inr (acc', st')"
    and "I st"
    and "\<And>s x r s'. I s \<Longrightarrow> x \<in> set xs \<Longrightarrow> body s x = Inr (r, s') \<Longrightarrow> I s'"
  shows "I st'"
  using assms
proof (induction xs arbitrary: st acc)
  case Nil
  then show ?case by simp
next
  case (Cons x xs)
  from Cons.prems(1) obtain r s1 where b: "body st x = Inr (r, s1)"
    and l: "for_loop body s1 (acc @ r) xs = Inr (acc', st')"
    by (cases "body st x") (auto split: prod.splits)
  have s1: "I s1" by (rule Cons.prems(3) [OF Cons.prems(2) _ b]) simp
  show ?case
  proof (rule Cons.IH [OF l s1])
    fix s y r' s'
    assume "I s" "y \<in> set xs" "body s y = Inr (r', s')"
    then show "I s'" using Cons.prems(3) [of s y r' s'] by simp
  qed
qed

lemma for_loop_related:
  assumes "R st st2"
    and "\<And>s s2 x. R s s2 \<Longrightarrow> rel_sum (=) (rel_prod (=) R) (body s x) (body s2 x)"
  shows "rel_sum (=) (rel_prod (=) R) (for_loop body st acc xs) (for_loop body st2 acc xs)"
  using assms(1)
proof (induction xs arbitrary: st st2 acc)
  case Nil
  then show ?case by simp
next
  case (Cons x xs)
  have r: "rel_sum (=) (rel_prod (=) R) (body st x) (body st2 x)"
    by (rule assms(2) [OF Cons.prems])
  show ?case
  proof (cases "body st x")
    case (Inl e)
    then show ?thesis using r by (cases "body st2 x") auto
  next
    case (Inr p)
    obtain a s1 where p: "p = (a, s1)" by (cases p)
    from r Inr p obtain s2 where b2: "body st2 x = Inr (a, s2)" and R: "R s1 s2"
      by (cases "body st2 x") auto
    show ?thesis using Inr p b2 Cons.IH [OF R] by simp
  qed
qed

lemma records_of_related:
  "rel_sum (=) (rel_prod (=) R) x y \<Longrightarrow> records_of x = records_of y"
  by (cases x; cases y) (auto simp: records_of_def)

subsection \<open>\<open>rank\<close> and \<open>predict\<close> change nothing but the log\<close>

lemma logger_variant_refl: "logger_variant st st"
  by (simp add: logger_variant_def)

lemma logger_variant_update: "logger_variant st (st\<lparr>logger := lg\<rparr>)"
  by (simp add: logger_variant_def)

lemma logger_variant_trans:
  "logger_variant a b \<Longrightarrow> logger_variant b c \<Longrightarrow> logger_variant a c"
  by (simp add: logger_variant_def)

lemma rank_user_keeps:
  "rank_user A l t n m st u = Inr (r, s) \<Longrightarrow> logger_variant st s"
  by (auto simp: rank_user_def Let_def logger_variant_def split: option.splits sum.splits)

lemma predict_user_keeps:
  "predict_user A l t m st u = Inr (r, s) \<Longrightarrow> logger_variant st s"
  by (auto simp: predict_user_def Let_def logger_variant_def split: option.splits sum.splits)

lemma rank_user_related:
  "logger_variant s s2 \<Longrightarrow>
   rel_sum (=) (rel_prod (=) logger_variant)
     (rank_user A l t n m s u) (rank_user A l t n m s2 u)"
  by (auto simp: rank_user_def Let_def logger_variant_def split: option.splits sum.splits)

lemma predict_user_related:
  "logger_variant s s2 \<Longrightarrow>
   rel_sum (=) (rel_prod (=) logger_variant)
     (predict_user A l t m s u) (predict_user A l t m s2 u)"
  by (auto simp: predict_user_def Let_def logger_variant_def split: option.splits sum.splits)

lemma rank_user_Inl:
  "rank_user A l t n m st u = Inl e \<Longrightarrow> \<exists>s tr f. alg_rank A s tr l n f = Inl e"
  by (auto simp: rank_user_def Let_def split: option.splits sum.splits)

lemma predict_user_Inl:
  "predict_user A l t m st u = Inl e \<Longrightarrow> \<exists>s tr f. alg_predict A s tr l f = Inl e"
  by (auto simp: predict_user_def Let_def split: option.splits sum.splits)

lemma rank_user_skipped:
  "dict_get (user_fit_dic st) (py_str u) = None \<Longrightarrow>
   rank_user A l t n m st u
     = Inr ([], st\<lparr>logger := logger st @ [Warning_no_alg_fitted (py_str u)]\<rparr>)"
  by (simp add: rank_user_def Let_def)

lemma predict_user_skipped:
  "dict_get (user_fit_dic st) (py_str u) = None \<Longrightarrow>
   predict_user A l t m st u
     = Inr ([], st\<lparr>logger := logger st @ [Warning_no_alg_fitted (py_str u)]\<rparr>)"
  by (simp add: predict_user_def Let_def)

lemma for_loop_logger_variant:
  assumes keeps: "\<And>s x r s'. body s x = Inr (r, s') \<Longrightarrow> logger_variant s s'"
    and loop: "for_loop body st acc xs = Inr (acc', st')"
  shows "logger_variant st st'"
proof (rule for_loop_invariant [where I = "logger_variant st", OF loop])
  show "logger_variant st st" by (rule logger_variant_refl)
next
  fix s x r s'
  assume "logger_variant st s" "body s x = Inr (r, s')"
  then show "logger_variant st s'" using keeps [of s x r s'] logger_variant_trans by blast
qed

lemma skip_in_loop:
  assumes keeps: "\<And>s x r s'. body s x = Inr (r, s') \<Longrightarrow> logger_variant s s'"
    and related: "\<And>s s2 x. logger_variant s s2 \<Longrightarrow>
        rel_sum (=) (rel_prod (=) logger_variant) (body s x) (body s2 x)"
    and skipped: "\<And>s. user_fit_dic s = user_fit_dic st \<Longrightarrow>
        \<exists>lg. body s u = Inr ([], s\<lparr>logger := lg\<rparr>)"
  shows "records_of (for_loop body st acc (us1 @ u # us2))
           = records_of (for_loop body st acc (us1 @ us2))"
proof (cases "for_loop body st acc us1")
  case (Inl e)
  then show ?thesis by (simp add: for_loop_append)
next
  case (Inr p)
  obtain acc1 st1 where p: "p = (acc1, st1)" by (cases p)
  have "logger_variant st st1"
    by (rule for_loop_logger_variant [of body st acc us1 acc1 st1]) (use keeps Inr p in auto)
  then have "user_fit_dic st1 = user_fit_dic st"
    by (simp add: logger_variant_def)
  then obtain lg where b: "body st1 u = Inr ([], st1\<lparr>logger := lg\<rparr>)"
    using skipped by blast
  have "rel_sum (=) (rel_prod (=) logger_variant)
          (for_loop body st1 acc1 us2) (for_loop body (st1\<lparr>logger := lg\<rparr>) acc1 us2)"
    by (rule for_loop_related [OF logger_variant_update related])
  then have "records_of (for_loop body (st1\<lparr>logger := lg\<rparr>) acc1 us2)
               = records_of (for_loop body st1 acc1 us2)"
    by (rule records_of_related [symmetric])
  then show ?thesis using Inr p b by (simp add: for_loop_append)
qed

section \<open>Concrete runs of the example\<close>

lemmas toy_eval =
  toy_rs_def ContentBasedRS_init_def toy_init_def toy_train_def toy_test_def row_def
  toy_alg_def toy_predict_def top_n_def passes_def
  ContentBasedRS_fit_def fit_user_def fit_except_def deepcopy_def call_process_rated_def
  call_fit_def get_user_interactions_def user_id_column_def item_id_column_def from_list_def
  ContentBasedRS_rank_def rank_user_def ContentBasedRS_predict_def predict_user_def
  filter_list_of_def all_users_of_def dict_get_def
  ContentBasedRS_fit_predict_def ContentBasedRS_fit_rank_def fit_predict_user_def
  fit_rank_user_def try_fit_def skip_except_def
  TestRatingsMethodology_def str_int_def str_nat.simps digit_char_def repr_n_recs_def
  repr_methodology_opt_def Let_def

lemma toy_fitted_registry:
  "user_fit_dic toy_fitted = [(''1'', Some 1), (''2'', None), (''4'', Some 3)]"
  by (simp add: toy_fitted_def toy_eval)

lemma toy_fitted_heap:
  "heap toy_fitted =
     [\<lparr>rated = [], fitted = None\<rparr>,
      \<lparr>rated = [row ''1'' ''a'' 3, row ''1'' ''b'' 5], fitted = Some 8\<rparr>,
      \<lparr>rated = [], fitted = None\<rparr>,
      \<lparr>rated = [row ''4'' ''c'' 4], fitted = Some 4\<rparr>]"
  by (simp add: toy_fitted_def toy_eval)

lemma toy_fitted_fields:
  "train_set toy_fitted = toy_train" "algorithm toy_fitted = 0"
  "items_directory toy_fitted = ''items_dir''" "logger toy_fitted = [Warning_no_alg_will_be_fitted ''no positive items'' ''2'']"
  by (simp_all add: toy_fitted_def toy_eval)

lemma toy_never_NotFittedAlg:
  "\<not> raises_NotFittedAlg (alg_rank toy_alg s tr c n f)"
  "\<not> raises_NotFittedAlg (alg_predict toy_alg s tr c f)"
  by (simp_all add: toy_alg_def raises_NotFittedAlg_def)

section \<open>Properties of \<open>ContentBasedRS.rank\<close> and \<open>ContentBasedRS.predict\<close>\<close>

text \<open>
  C3. \<open>predict\<close> and \<open>rank\<close> raise \<open>NotFittedAlg\<close> if and only if the Fit Registry is
  empty when they are called, and then they raise before any result record is produced:
  the call returns the exception and no container. The algorithm's own \<open>rank\<close> and
  \<open>predict\<close> are taken not to raise \<open>NotFittedAlg\<close> themselves, since their exceptions
  pass through the orchestration unchanged.
\<close>

theorem NotFittedAlg_iff_registry_empty:
  assumes "\<forall>s tr c n f. \<not> raises_NotFittedAlg (alg_rank A s tr c n f)"
    and "\<forall>s tr c f. \<not> raises_NotFittedAlg (alg_predict A s tr c f)"
  shows "raises_NotFittedAlg (ContentBasedRS_rank it A st test n ids m) = (user_fit_dic st = [])
       \<and> raises_NotFittedAlg (ContentBasedRS_predict it A st test ids m) = (user_fit_dic st = [])
       \<and> (user_fit_dic st = [] \<longrightarrow>
            ContentBasedRS_rank it A st test n ids m = Inl (NotFittedAlg not_fit_message)
            \<and> ContentBasedRS_predict it A st test ids m = Inl (NotFittedAlg not_fit_message))"
proof -
  have r: "\<not> raises_NotFittedAlg (ContentBasedRS_rank it A st test n ids m)"
    if ne: "user_fit_dic st \<noteq> []"
  proof
    assume "raises_NotFittedAlg (ContentBasedRS_rank it A st test n ids m)"
    then obtain msg where "ContentBasedRS_rank it A st test n ids m = Inl (NotFittedAlg msg)"
      by (auto simp: raises_NotFittedAlg_def split: sum.splits error.splits)
    then obtain l us where "for_loop (rank_user A l test n m) st [] us = Inl (NotFittedAlg msg)"
      using ne by (auto simp: ContentBasedRS_rank_def Let_def split: sum.splits prod.splits)
    from for_loop_Inl [OF this] obtain s x where "rank_user A l test n m s x = Inl (NotFittedAlg msg)"
      by blast
    from rank_user_Inl [OF this] obtain s' tr f where "alg_rank A s' tr l n f = Inl (NotFittedAlg msg)"
      by blast
    then have "raises_NotFittedAlg (alg_rank A s' tr l n f)"
      by (simp add: raises_NotFittedAlg_def)
    then show False using assms(1) by blast
  qed
  have p: "\<not> raises_NotFittedAlg (ContentBasedRS_predict it A st test ids m)"
    if ne: "user_fit_dic st \<noteq> []"
  proof
    assume "raises_NotFittedAlg (ContentBasedRS_predict it A st test ids m)"
    then obtain msg where "ContentBasedRS_predict it A st test ids m = Inl (NotFittedAlg msg)"
      by (auto simp: raises_NotFittedAlg_def split: sum.splits error.splits)
    then obtain l us where "for_loop (predict_user A l test m) st [] us = Inl (NotFittedAlg msg)"
      using ne by (auto simp: ContentBasedRS_predict_def Let_def split: sum.splits prod.splits)
    from for_loop_Inl [OF this] obtain s x where "predict_user A l test m s x = Inl (NotFittedAlg msg)"
      by blast
    from predict_user_Inl [OF this] obtain s' tr f where "alg_predict A s' tr l f = Inl (NotFittedAlg msg)"
      by blast
    then have "raises_NotFittedAlg (alg_predict A s' tr l f)"
      by (simp add: raises_NotFittedAlg_def)
    then show False using assms(2) by blast
  qed
  have e: "user_fit_dic st = [] \<Longrightarrow>
             ContentBasedRS_rank it A st test n ids m = Inl (NotFittedAlg not_fit_message)
             \<and> ContentBasedRS_predict it A st test ids m = Inl (NotFittedAlg not_fit_message)"
    by (simp add: ContentBasedRS_rank_def ContentBasedRS_predict_def)
  show ?thesis
  proof (cases "user_fit_dic st = []")
    case True
    then show ?thesis using e by (simp add: raises_NotFittedAlg_def)
  next
    case False
    then show ?thesis using r p by simp
  qed
qed

theorem NotFittedAlg_iff_registry_empty_witness:
  "raises_NotFittedAlg (ContentBasedRS_rank remdups toy_alg toy_rs toy_test None None None)
   \<and> raises_NotFittedAlg (ContentBasedRS_predict remdups toy_alg toy_rs toy_test None None)
   \<and> user_fit_dic toy_rs = []
   \<and> \<not> raises_NotFittedAlg (ContentBasedRS_rank remdups toy_alg toy_fitted toy_test None None None)
   \<and> \<not> raises_NotFittedAlg (ContentBasedRS_predict remdups toy_alg toy_fitted toy_test None None)
   \<and> user_fit_dic toy_fitted \<noteq> []"
proof -
  have h1: "\<forall>s tr c n f. \<not> raises_NotFittedAlg (alg_rank toy_alg s tr c n f)"
    and h2: "\<forall>s tr c f. \<not> raises_NotFittedAlg (alg_predict toy_alg s tr c f)"
    by (simp_all add: toy_never_NotFittedAlg)
  have e: "user_fit_dic toy_rs = []"
    by (simp add: toy_rs_def ContentBasedRS_init_def)
  have ne: "user_fit_dic toy_fitted \<noteq> []"
    by (simp add: toy_fitted_registry)
  show ?thesis
    using NotFittedAlg_iff_registry_empty [OF h1 h2, of remdups toy_rs toy_test None None None]
          NotFittedAlg_iff_registry_empty [OF h1 h2, of remdups toy_fitted toy_test None None None]
          e ne
    by (simp add: raises_NotFittedAlg_def)
qed

text \<open>
  C4. An evaluated user whose Fit Registry entry is absent or is \<open>None\<close> contributes no
  result record to \<open>rank\<close> or \<open>predict\<close> and raises nothing; the loop over the other
  users gives, with that user or without, the same records or the same exception. The
  two cases, absent key and \<open>None\<close> entry, are treated alike.
\<close>

theorem unfitted_user_contributes_nothing:
  assumes "map_of (user_fit_dic st) (py_str u) = None
           \<or> map_of (user_fit_dic st) (py_str u) = Some None"
  shows "rank_user A l t n m st u
           = Inr ([], st\<lparr>logger := logger st @ [Warning_no_alg_fitted (py_str u)]\<rparr>)
       \<and> predict_user A l t m st u
           = Inr ([], st\<lparr>logger := logger st @ [Warning_no_alg_fitted (py_str u)]\<rparr>)
       \<and> records_of (for_loop (rank_user A l t n m) st acc (us1 @ u # us2))
           = records_of (for_loop (rank_user A l t n m) st acc (us1 @ us2))
       \<and> records_of (for_loop (predict_user A l t m) st acc (us1 @ u # us2))
           = records_of (for_loop (predict_user A l t m) st acc (us1 @ us2))"
proof -
  have g: "dict_get (user_fit_dic s) (py_str u) = None" if "user_fit_dic s = user_fit_dic st" for s
    using assms that by (auto simp: dict_get_def)
  have 1: "records_of (for_loop (rank_user A l t n m) st acc (us1 @ u # us2))
           = records_of (for_loop (rank_user A l t n m) st acc (us1 @ us2))"
  proof (rule skip_in_loop)
    show "\<And>s x r s'. rank_user A l t n m s x = Inr (r, s') \<Longrightarrow> logger_variant s s'"
      by (rule rank_user_keeps)
    show "\<And>s s2 x. logger_variant s s2 \<Longrightarrow>
        rel_sum (=) (rel_prod (=) logger_variant) (rank_user A l t n m s x) (rank_user A l t n m s2 x)"
      by (rule rank_user_related)
    fix s :: "'a content_based_rs"
    assume "user_fit_dic s = user_fit_dic st"
    then have "dict_get (user_fit_dic s) (py_str u) = None" by (rule g)
    then show "\<exists>lg. rank_user A l t n m s u = Inr ([], s\<lparr>logger := lg\<rparr>)"
      using rank_user_skipped [of s u A l t n m] by blast
  qed
  have 2: "records_of (for_loop (predict_user A l t m) st acc (us1 @ u # us2))
           = records_of (for_loop (predict_user A l t m) st acc (us1 @ us2))"
  proof (rule skip_in_loop)
    show "\<And>s x r s'. predict_user A l t m s x = Inr (r, s') \<Longrightarrow> logger_variant s s'"
      by (rule predict_user_keeps)
    show "\<And>s s2 x. logger_variant s s2 \<Longrightarrow>
        rel_sum (=) (rel_prod (=) logger_variant) (predict_user A l t m s x) (predict_user A l t m s2 x)"
      by (rule predict_user_related)
    fix s :: "'a content_based_rs"
    assume "user_fit_dic s = user_fit_dic st"
    then have "dict_get (user_fit_dic s) (py_str u) = None" by (rule g)
    then show "\<exists>lg. predict_user A l t m s u = Inr ([], s\<lparr>logger := lg\<rparr>)"
      using predict_user_skipped [of s u A l t m] by blast
  qed
  have g0: "dict_get (user_fit_dic st) (py_str u) = None"
    by (rule g) simp
  show ?thesis
    using 1 2 by (simp add: rank_user_skipped [OF g0] predict_user_skipped [OF g0])
qed

theorem unfitted_user_contributes_nothing_witness:
  "map_of (user_fit_dic toy_fitted) (py_str (PStr ''2'')) = Some None
   \<and> map_of (user_fit_dic toy_fitted) (py_str (PInt 3)) = None
   \<and> records_of (for_loop (rank_user toy_alg () toy_test None (Some TestRatingsMethodology))
        toy_fitted [] ([PStr ''1''] @ PStr ''2'' # [PStr ''4'']))
      = records_of (for_loop (rank_user toy_alg () toy_test None (Some TestRatingsMethodology))
        toy_fitted [] ([PStr ''1''] @ [PStr ''4'']))
   \<and> records_of (for_loop (predict_user toy_alg () toy_test (Some TestRatingsMethodology))
        toy_fitted [] ([PStr ''1''] @ PInt 3 # [PStr ''4'']))
      = Inr [row ''1'' ''a'' 11, row ''1'' ''b'' 13, row ''4'' ''c'' 8]"
proof -
  have a: "map_of (user_fit_dic toy_fitted) (py_str (PStr ''2'')) = Some None"
    by (simp add: toy_fitted_registry)
  have b: "map_of (user_fit_dic toy_fitted) (py_str (PInt 3)) = None"
    by (simp add: toy_fitted_registry str_int_def str_nat.simps digit_char_def)
  have c: "records_of (for_loop (predict_user toy_alg () toy_test (Some TestRatingsMethodology))
        toy_fitted [] ([PStr ''1''] @ [PStr ''4'']))
      = Inr [row ''1'' ''a'' 11, row ''1'' ''b'' 13, row ''4'' ''c'' 8]"
    by (simp add: records_of_def predict_user_def toy_fitted_registry toy_fitted_heap
          toy_fitted_fields toy_train_def toy_test_def row_def toy_alg_def toy_predict_def
          passes_def filter_list_of_def dict_get_def get_user_interactions_def
          item_id_column_def TestRatingsMethodology_def Let_def)
  show ?thesis
    using unfitted_user_contributes_nothing [of toy_fitted "PStr ''2''" toy_alg "()" toy_test
            None "Some TestRatingsMethodology" "[]" "[PStr ''1'']" "[PStr ''4'']"]
          unfitted_user_contributes_nothing [of toy_fitted "PInt 3" toy_alg "()" toy_test
            None "Some TestRatingsMethodology" "[]" "[PStr ''1'']" "[PStr ''4'']"]
          a b c
    by simp
qed

section \<open>The fit attempt of one user\<close>

lemma base_kept_refl: "algorithm st < length (heap st) \<Longrightarrow> base_kept st st"
  by (simp add: base_kept_def)

lemma base_kept_base:
  assumes "base_kept st s"
  shows "heap s ! algorithm s = heap st ! algorithm st" and "algorithm s < length (heap s)"
    and "length (heap st) \<le> length (heap s)"
proof -
  have t: "take (length (heap st)) (heap s) = heap st" and a: "algorithm st < length (heap st)"
    and e: "algorithm s = algorithm st"
    using assms by (simp_all add: base_kept_def)
  have l: "length (heap st) \<le> length (heap s)"
    using arg_cong [OF t, of length] by simp
  show "length (heap st) \<le> length (heap s)" by (rule l)
  show "algorithm s < length (heap s)" using a e l by simp
  have "heap s ! algorithm st = take (length (heap st)) (heap s) ! algorithm st"
    using a by simp
  then show "heap s ! algorithm s = heap st ! algorithm st" using t e by simp
qed

lemma base_kept_old:
  assumes "base_kept st s" "i < length (heap st)"
  shows "heap s ! i = heap st ! i"
proof -
  have "heap s ! i = take (length (heap st)) (heap s) ! i" using assms(2) by simp
  then show ?thesis using assms(1) by (simp add: base_kept_def)
qed

lemma fit_user_char:
  assumes "algorithm s < length (heap s)"
  shows "fit_user A loaded s u =
     (let user_train = get_user_interactions (train_set s) u;
          base = heap s ! algorithm s;
          a = length (heap s);
          s1 = s\<lparr>heap := heap s @ [snd (fit_attempt A loaded base user_train)],
                  invoked := invoked s @ attempt_calls A loaded a u base user_train\<rparr>
      in case fst (fit_attempt A loaded base user_train) of
           Some e \<Rightarrow> fit_except s1 u e
         | None \<Rightarrow> Inr ([], s1\<lparr>user_fit_dic := AList.update u (Some a) (user_fit_dic s1)\<rparr>))"
  using assms
  by (simp add: fit_user_def fit_attempt_def attempt_calls_def deepcopy_def call_process_rated_def
        call_fit_def Let_def split_def nth_append split: option.splits)

subsection \<open>More on the loop\<close>

lemma for_loop_each:
  assumes "for_loop body st acc xs = Inr (acc', st')"
    and "I st"
    and step: "\<And>s x r s'. I s \<Longrightarrow> x \<in> set xs \<Longrightarrow> body s x = Inr (r, s') \<Longrightarrow> I s' \<and> Q x s'"
    and stable: "\<And>s x y r s'. I s \<Longrightarrow> Q x s \<Longrightarrow> y \<in> set xs \<Longrightarrow> body s y = Inr (r, s') \<Longrightarrow> Q x s'"
  shows "I st' \<and> (\<forall>x \<in> set xs. Q x st')"
proof -
  have "I st' \<and> (\<forall>x \<in> set ys. Q x st') \<and> (\<forall>x. Q x st \<longrightarrow> Q x st')"
    if "for_loop body st acc ys = Inr (acc', st')" "I st" "set ys \<subseteq> set xs" for ys
    using that
  proof (induction ys arbitrary: st acc)
    case Nil
    then show ?case by simp
  next
    case (Cons y ys)
    from Cons.prems(1) obtain r s1 where b: "body st y = Inr (r, s1)"
      and l: "for_loop body s1 (acc @ r) ys = Inr (acc', st')"
      by (cases "body st y") (auto split: prod.splits)
    have y: "y \<in> set xs" using Cons.prems(3) by simp
    have s1: "I s1" and q: "Q y s1" using step [OF Cons.prems(2) y b] by simp_all
    have ih: "I st' \<and> (\<forall>x \<in> set ys. Q x st') \<and> (\<forall>x. Q x s1 \<longrightarrow> Q x st')"
      using Cons.IH [OF l s1] Cons.prems(3) by simp
    have "Q x st'" if "Q x st" for x
    proof -
      have "Q x s1" by (rule stable [OF Cons.prems(2) that y b])
      then show ?thesis using ih by simp
    qed
    then show ?case using ih q by simp
  qed
  from this [of xs] assms(1,2) show ?thesis by simp
qed

lemma for_loop_returns:
  assumes "I st"
    and "\<And>s x. I s \<Longrightarrow> x \<in> set xs \<Longrightarrow> \<exists>r s'. body s x = Inr (r, s') \<and> I s'"
  shows "\<exists>acc' st'. for_loop body st acc xs = Inr (acc', st')"
  using assms
proof (induction xs arbitrary: st acc)
  case Nil
  then show ?case by simp
next
  case (Cons x xs)
  from Cons.prems(2) [OF Cons.prems(1), of x] obtain r s1
    where b: "body st x = Inr (r, s1)" and s1: "I s1" by auto
  have "\<exists>acc' st'. for_loop body s1 (acc @ r) xs = Inr (acc', st')"
  proof (rule Cons.IH [OF s1])
    fix s y assume "I s" "y \<in> set xs"
    then show "\<exists>r s'. body s y = Inr (r, s') \<and> I s'" using Cons.prems(2) [of s y] by simp
  qed
  then show ?case using b by simp
qed

section \<open>Properties of \<open>ContentBasedRS.fit\<close>\<close>

lemma fit_user_step:
  assumes k: "base_kept st s"
    and L: "loaded = load_available_contents A (heap st ! algorithm st) (items_directory st)
                       (set (item_id_column (train_set st)))"
  shows "fit_user A loaded s u =
     (let s1 = s\<lparr>heap := heap s @ [snd (fit_outcome A st u)],
                  invoked := invoked s @
                    attempt_calls A loaded (length (heap s)) u (heap st ! algorithm st)
                      (get_user_interactions (train_set st) u)\<rparr>
      in case fst (fit_outcome A st u) of
           Some e \<Rightarrow> fit_except s1 u e
         | None \<Rightarrow>
             Inr ([], s1\<lparr>user_fit_dic := AList.update u (Some (length (heap s))) (user_fit_dic s1)\<rparr>))"
proof -
  have a: "algorithm s < length (heap s)" and b: "heap s ! algorithm s = heap st ! algorithm st"
    using base_kept_base [OF k] by simp_all
  have t: "train_set s = train_set st" using k by (simp add: base_kept_def)
  show ?thesis
    by (simp add: fit_user_char [OF a] b t fit_outcome_def L Let_def)
qed

lemma base_kept_grow:
  "base_kept st s \<Longrightarrow> base_kept st (s\<lparr>heap := heap s @ xs\<rparr>)"
  using base_kept_base(3) [of st s] by (simp add: base_kept_def)

lemma fit_user_Inr:
  assumes k: "base_kept st s"
    and L: "loaded = load_available_contents A (heap st ! algorithm st) (items_directory st)
                       (set (item_id_column (train_set st)))"
    and r: "fit_user A loaded s u = Inr (r, s')"
  shows "r = []" and "skips_or_fits (fit_outcome A st u)" and "base_kept st s'"
    and "heap s' = heap s @ [snd (fit_outcome A st u)]"
    and "user_fit_dic s' =
           AList.update u (case fst (fit_outcome A st u) of None \<Rightarrow> Some (length (heap s)) | Some e \<Rightarrow> None)
             (user_fit_dic s)"
    and "invoked s' = invoked s @
           attempt_calls A loaded (length (heap s)) u (heap st ! algorithm st)
             (get_user_interactions (train_set st) u)"
proof -
  note c = r [unfolded fit_user_step [OF k L]]
  have g: "base_kept st (s\<lparr>heap := heap s @ [snd (fit_outcome A st u)]\<rparr>)"
    by (rule base_kept_grow [OF k])
  show "r = []" using c
    by (auto simp: Let_def fit_except_def split: option.splits error.splits)
  show "skips_or_fits (fit_outcome A st u)" using c
    by (auto simp: Let_def fit_except_def skips_or_fits_def is_UserSkipAlgFit_def
          split: option.splits error.splits)
  show "base_kept st s'" using c g
    by (auto simp: Let_def fit_except_def base_kept_def split: option.splits error.splits)
  show "heap s' = heap s @ [snd (fit_outcome A st u)]" using c
    by (auto simp: Let_def fit_except_def split: option.splits error.splits)
  show "user_fit_dic s' =
           AList.update u (case fst (fit_outcome A st u) of None \<Rightarrow> Some (length (heap s)) | Some e \<Rightarrow> None)
             (user_fit_dic s)" using c
    by (auto simp: Let_def fit_except_def split: option.splits error.splits)
  show "invoked s' = invoked s @
           attempt_calls A loaded (length (heap s)) u (heap st ! algorithm st)
             (get_user_interactions (train_set st) u)" using c
    by (auto simp: Let_def fit_except_def split: option.splits error.splits)
qed

lemma fit_user_total:
  assumes k: "base_kept st s"
    and L: "loaded = load_available_contents A (heap st ! algorithm st) (items_directory st)
                       (set (item_id_column (train_set st)))"
    and ok: "skips_or_fits (fit_outcome A st u)"
  shows "\<exists>s'. fit_user A loaded s u = Inr ([], s')"
  using ok unfolding fit_user_step [OF k L]
  by (auto simp: Let_def fit_except_def skips_or_fits_def is_UserSkipAlgFit_def
        split: option.splits error.splits)

lemma registered_after_step:
  assumes k: "base_kept st s"
    and h: "heap s' = heap s @ [snd (fit_outcome A st u)]"
    and d: "user_fit_dic s' =
           AList.update u (case fst (fit_outcome A st u) of None \<Rightarrow> Some (length (heap s)) | Some e \<Rightarrow> None)
             (user_fit_dic s)"
  shows "registered A st s' u"
proof (cases "fst (fit_outcome A st u)")
  case None
  have "length (heap st) \<le> length (heap s)" by (rule base_kept_base(3) [OF k])
  then show ?thesis
    using None by (simp add: registered_def d h update_conv')
next
  case (Some e)
  then show ?thesis by (simp add: registered_def d update_conv')
qed

lemma registered_stable:
  assumes q: "registered A st s x"
    and h: "heap s' = heap s @ ys"
    and d: "map_of (user_fit_dic s') x = map_of (user_fit_dic s) x"
  shows "registered A st s' x"
proof (cases "fst (fit_outcome A st x)")
  case None
  then obtain a where a: "map_of (user_fit_dic s) x = Some (Some a)" "length (heap st) \<le> a"
      "a < length (heap s)" "heap s ! a = snd (fit_outcome A st x)"
    using q by (auto simp: registered_def)
  then have "map_of (user_fit_dic s') x = Some (Some a) \<and> length (heap st) \<le> a
               \<and> a < length (heap s') \<and> heap s' ! a = snd (fit_outcome A st x)"
    by (simp add: d h nth_append)
  then show ?thesis using None unfolding registered_def by auto
next
  case (Some e)
  then show ?thesis using q by (simp add: registered_def d)
qed

lemma fit_loop_post:
  assumes L: "loaded = load_available_contents A (heap st ! algorithm st) (items_directory st)
                       (set (item_id_column (train_set st)))"
    and wf: "algorithm st < length (heap st)"
    and loop: "for_loop (fit_user A loaded) st acc us = Inr (acc', st')"
  shows "base_kept st st'"
    and "\<forall>u \<in> set us. skips_or_fits (fit_outcome A st u) \<and> registered A st st' u"
    and "\<forall>v. v \<notin> set us \<longrightarrow> map_of (user_fit_dic st') v = map_of (user_fit_dic st) v"
    and "distinct (map fst (user_fit_dic st)) \<longrightarrow> distinct (map fst (user_fit_dic st'))"
    and "dom (map_of (user_fit_dic st')) = dom (map_of (user_fit_dic st)) \<union> set us"
proof -
  define I where "I s \<longleftrightarrow> base_kept st s
      \<and> (\<forall>v. v \<notin> set us \<longrightarrow> map_of (user_fit_dic s) v = map_of (user_fit_dic st) v)
      \<and> (distinct (map fst (user_fit_dic st)) \<longrightarrow> distinct (map fst (user_fit_dic s)))
      \<and> dom (map_of (user_fit_dic s)) \<subseteq> dom (map_of (user_fit_dic st)) \<union> set us
      \<and> dom (map_of (user_fit_dic st)) \<subseteq> dom (map_of (user_fit_dic s))" for s
  define Q where "Q u s \<longleftrightarrow> skips_or_fits (fit_outcome A st u) \<and> registered A st s u" for u s
  have I0: "I st" by (simp add: I_def base_kept_refl [OF wf])
  have step: "I s' \<and> Q x s'" if i: "I s" and x: "x \<in> set us" and b: "fit_user A loaded s x = Inr (r, s')"
    for s x r s'
  proof -
    have k: "base_kept st s" using i by (simp add: I_def)
    note f = fit_user_Inr [OF k L b]
    have m: "map_of (user_fit_dic s') = (map_of (user_fit_dic s))
               (x \<mapsto> (case fst (fit_outcome A st x) of None \<Rightarrow> Some (length (heap s)) | Some e \<Rightarrow> None))"
      by (simp add: f(5) update_conv')
    have "I s'"
      unfolding I_def
    proof (intro conjI)
      show "base_kept st s'" by (rule f(3))
      show "\<forall>v. v \<notin> set us \<longrightarrow> map_of (user_fit_dic s') v = map_of (user_fit_dic st) v"
        using i x by (auto simp: I_def m)
      show "distinct (map fst (user_fit_dic st)) \<longrightarrow> distinct (map fst (user_fit_dic s'))"
        using i by (simp add: I_def f(5) distinct_update)
      show "dom (map_of (user_fit_dic s')) \<subseteq> dom (map_of (user_fit_dic st)) \<union> set us"
        using i x by (auto simp: I_def m)
      show "dom (map_of (user_fit_dic st)) \<subseteq> dom (map_of (user_fit_dic s'))"
        using i by (auto simp: I_def m)
    qed
    moreover have "Q x s'"
      unfolding Q_def using f(2) registered_after_step [OF k f(4) f(5)] by simp
    ultimately show ?thesis by simp
  qed
  have stable: "Q x s'" if i: "I s" and q: "Q x s" and y: "y \<in> set us"
    and b: "fit_user A loaded s y = Inr (r, s')" for s x y r s'
  proof (cases "y = x")
    case True
    then show ?thesis using step [OF i y b] by simp
  next
    case False
    have k: "base_kept st s" using i by (simp add: I_def)
    note f = fit_user_Inr [OF k L b]
    have d: "map_of (user_fit_dic s') x = map_of (user_fit_dic s) x"
      using False by (simp add: f(5) update_conv')
    have q': "registered A st s x" using q by (simp add: Q_def)
    have "registered A st s' x" by (rule registered_stable [OF q' f(4) d])
    then show ?thesis using q by (simp add: Q_def)
  qed
  have e: "I st' \<and> (\<forall>x \<in> set us. Q x st')"
    by (rule for_loop_each [where I = I and Q = Q, OF loop I0 step stable])
  show "base_kept st st'" using e by (simp add: I_def)
  show "\<forall>u \<in> set us. skips_or_fits (fit_outcome A st u) \<and> registered A st st' u"
    using e by (simp add: Q_def)
  show "\<forall>v. v \<notin> set us \<longrightarrow> map_of (user_fit_dic st') v = map_of (user_fit_dic st) v"
    using e by (simp add: I_def)
  show "distinct (map fst (user_fit_dic st)) \<longrightarrow> distinct (map fst (user_fit_dic st'))"
    using e by (simp add: I_def)
  have "set us \<subseteq> dom (map_of (user_fit_dic st'))"
  proof
    fix u assume "u \<in> set us"
    then have "registered A st st' u" using e by (simp add: Q_def)
    then show "u \<in> dom (map_of (user_fit_dic st'))"
      by (auto simp: registered_def split: option.splits)
  qed
  then show "dom (map_of (user_fit_dic st')) = dom (map_of (user_fit_dic st)) \<union> set us"
    using e by (auto simp: I_def)
qed

lemma fit_loop_returns:
  assumes L: "loaded = load_available_contents A (heap st ! algorithm st) (items_directory st)
                       (set (item_id_column (train_set st)))"
    and wf: "algorithm st < length (heap st)"
    and ok: "\<forall>u \<in> set us. skips_or_fits (fit_outcome A st u)"
  shows "\<exists>acc' st'. for_loop (fit_user A loaded) st acc us = Inr (acc', st')"
proof (rule for_loop_returns [where I = "base_kept st"])
  show "base_kept st st" by (rule base_kept_refl [OF wf])
next
  fix s x assume k: "base_kept st s" and x: "x \<in> set us"
  then obtain s' where b: "fit_user A loaded s x = Inr ([], s')"
    using fit_user_total [OF k L] ok by blast
  have "base_kept st s'" by (rule fit_user_Inr(3) [OF k L b])
  then show "\<exists>r s'. fit_user A loaded s x = Inr (r, s') \<and> base_kept st s'" using b by blast
qed

lemma fit_pbar:
  "set_iteration it \<Longrightarrow> set (map py_str (it (map PStr us))) = set us"
  by (simp add: set_iteration_def image_image)

lemma ContentBasedRS_fit_loop:
  "ContentBasedRS_fit it A st =
     (case for_loop (fit_user A
              (load_available_contents A (heap st ! algorithm st) (items_directory st)
                 (set (item_id_column (train_set st)))))
            st [] (map py_str (it (map PStr (user_id_column (train_set st))))) of
        Inl e \<Rightarrow> Inl e
      | Inr (r, st') \<Rightarrow> Inr st')"
  by (simp add: ContentBasedRS_fit_def Let_def)

lemma fit_outcome_base_kept:
  assumes "base_kept st s"
  shows "fit_outcome A s u = fit_outcome A st u"
proof -
  have "heap s ! algorithm s = heap st ! algorithm st" by (rule base_kept_base(1) [OF assms])
  moreover have "train_set s = train_set st" "items_directory s = items_directory st"
    using assms by (simp_all add: base_kept_def)
  ultimately show ?thesis by (simp add: fit_outcome_def)
qed

lemma one_entry_per_key:
  "distinct (map fst xs) \<Longrightarrow> u \<in> fst ` set xs \<Longrightarrow> length (filter (\<lambda>e. fst e = u) xs) = 1"
proof (induction xs)
  case Nil
  then show ?case by simp
next
  case (Cons x xs)
  show ?case
  proof (cases "fst x = u")
    case True
    then have "u \<notin> fst ` set xs" using Cons.prems(1) by auto
    then have "filter (\<lambda>e. fst e = u) xs = []" by (auto simp: filter_empty_conv)
    then show ?thesis using True by simp
  next
    case False
    then show ?thesis using Cons by auto
  qed
qed

text \<open>
  C2. When every user's fit attempt either raises \<open>UserSkipAlgFit\<close> or succeeds, \<open>fit\<close>
  returns without raising, whatever the Fit Registry held before. On return the registry
  has an entry for every distinct user of the train set, exactly one as the keys of a
  dictionary are distinct: \<open>None\<close> for the users whose attempt raised, and for the others
  the fitted copy, an instance allocated by this call that is in the state the attempt
  produced. \<open>fit\<close> only assigns entries: the keys on return are the keys before and the
  users of the train set, and an entry of a user outside the train set is as it was; from
  an empty registry the keys are the users of the train set.
\<close>

theorem fit_skip_does_not_abort:
  assumes wf: "algorithm st < length (heap st)"
    and it: "set_iteration it"
    and ok: "\<forall>u \<in> set (user_id_column (train_set st)). skips_or_fits (fit_outcome A st u)"
  shows "\<exists>st'. ContentBasedRS_fit it A st = Inr st'
           \<and> (\<forall>u \<in> set (user_id_column (train_set st)). registered A st st' u)
           \<and> dom (map_of (user_fit_dic st'))
               = dom (map_of (user_fit_dic st)) \<union> set (user_id_column (train_set st))
           \<and> (\<forall>v. v \<notin> set (user_id_column (train_set st))
                  \<longrightarrow> map_of (user_fit_dic st') v = map_of (user_fit_dic st) v)
           \<and> (distinct (map fst (user_fit_dic st))
                \<longrightarrow> distinct (map fst (user_fit_dic st'))
                    \<and> (\<forall>u \<in> set (user_id_column (train_set st)).
                          length (filter (\<lambda>e. fst e = u) (user_fit_dic st')) = 1))
           \<and> (user_fit_dic st = []
                \<longrightarrow> set (map fst (user_fit_dic st')) = set (user_id_column (train_set st)))"
proof -
  define loaded where "loaded = load_available_contents A (heap st ! algorithm st)
      (items_directory st) (set (item_id_column (train_set st)))"
  define pbar where "pbar = map py_str (it (map PStr (user_id_column (train_set st))))"
  have p: "set pbar = set (user_id_column (train_set st))"
    unfolding pbar_def by (rule fit_pbar [OF it])
  have "\<forall>u \<in> set pbar. skips_or_fits (fit_outcome A st u)" using ok p by simp
  from fit_loop_returns [OF loaded_def wf this, of "[]"]
  obtain acc' st' where loop: "for_loop (fit_user A loaded) st [] pbar = Inr (acc', st')"
    by blast
  note post = fit_loop_post [OF loaded_def wf loop]
  have r: "ContentBasedRS_fit it A st = Inr st'"
    using loop by (simp add: ContentBasedRS_fit_loop loaded_def pbar_def)
  have g: "\<forall>u \<in> set (user_id_column (train_set st)). registered A st st' u"
    using post(2) p by simp
  have d: "dom (map_of (user_fit_dic st'))
             = dom (map_of (user_fit_dic st)) \<union> set (user_id_column (train_set st))"
    using post(5) p by simp
  have f: "\<forall>v. v \<notin> set (user_id_column (train_set st))
              \<longrightarrow> map_of (user_fit_dic st') v = map_of (user_fit_dic st) v"
    using post(3) p by simp
  have k: "set (user_id_column (train_set st)) \<subseteq> fst ` set (user_fit_dic st')"
    using d by (auto simp: dom_map_of_conv_image_fst)
  have o: "distinct (map fst (user_fit_dic st))
             \<longrightarrow> distinct (map fst (user_fit_dic st'))
                 \<and> (\<forall>u \<in> set (user_id_column (train_set st)).
                       length (filter (\<lambda>e. fst e = u) (user_fit_dic st')) = 1)"
  proof
    assume "distinct (map fst (user_fit_dic st))"
    then have ds: "distinct (map fst (user_fit_dic st'))" using post(4) by simp
    have "length (filter (\<lambda>e. fst e = u) (user_fit_dic st')) = 1"
      if "u \<in> set (user_id_column (train_set st))" for u
      by (rule one_entry_per_key [OF ds]) (use k that in blast)
    then show "distinct (map fst (user_fit_dic st'))
                 \<and> (\<forall>u \<in> set (user_id_column (train_set st)).
                       length (filter (\<lambda>e. fst e = u) (user_fit_dic st')) = 1)"
      using ds by simp
  qed
  have e: "user_fit_dic st = []
             \<longrightarrow> set (map fst (user_fit_dic st')) = set (user_id_column (train_set st))"
    using d by (simp add: dom_map_of_conv_image_fst)
  show ?thesis
    by (intro exI [of _ st'] conjI r g d f o e)
qed

text \<open>
  The example, first from the empty registry and then from the registry that
  \<open>fit_predict\<close> with \<open>save_fit\<close> leaves, which holds an entry for user 3 of the test set:
  \<open>fit\<close> returns both times, registers the users 1, 2 and 4 of the train set, and in the
  second run keeps the entry of user 3.
\<close>

theorem fit_skip_does_not_abort_witness:
  "(\<exists>st'. ContentBasedRS_fit remdups toy_alg toy_rs = Inr st'
        \<and> registered toy_alg toy_rs st' ''1''
        \<and> registered toy_alg toy_rs st' ''2''
        \<and> registered toy_alg toy_rs st' ''4''
        \<and> dom (map_of (user_fit_dic st')) = {''1'', ''2'', ''4''}
        \<and> distinct (map fst (user_fit_dic st'))
        \<and> set (map fst (user_fit_dic st')) = {''1'', ''2'', ''4''})
   \<and> fst (fit_outcome toy_alg toy_rs ''1'') = None
   \<and> fst (fit_outcome toy_alg toy_rs ''2'') = Some (UserSkipAlgFit ''no positive items'')
   \<and> fst (fit_outcome toy_alg toy_rs ''4'') = None
   \<and> map fst (user_fit_dic (snd (projr toy_fit_predict_saved))) = [''1'', ''2'', ''3'', ''4'']
   \<and> (\<exists>st'. ContentBasedRS_fit remdups toy_alg (snd (projr toy_fit_predict_saved)) = Inr st'
        \<and> registered toy_alg (snd (projr toy_fit_predict_saved)) st' ''2''
        \<and> dom (map_of (user_fit_dic st')) = {''1'', ''2'', ''3'', ''4''}
        \<and> map_of (user_fit_dic st') ''3'' = Some None
        \<and> length (filter (\<lambda>e. fst e = ''1'') (user_fit_dic st')) = 1)"
proof -
  have it: "set_iteration remdups"
    by (simp add: set_iteration_def)
  have wf: "algorithm toy_rs < length (heap toy_rs)"
    by (simp add: toy_rs_def ContentBasedRS_init_def)
  have u: "set (user_id_column (train_set toy_rs)) = {''1'', ''2'', ''4''}"
    by (simp add: toy_rs_def ContentBasedRS_init_def toy_train_def row_def user_id_column_def
          insert_commute)
  have o: "fst (fit_outcome toy_alg toy_rs ''1'') = None"
      "fst (fit_outcome toy_alg toy_rs ''2'') = Some (UserSkipAlgFit ''no positive items'')"
      "fst (fit_outcome toy_alg toy_rs ''4'') = None"
    by (simp_all add: fit_outcome_def fit_attempt_def toy_eval)
  have ok: "\<forall>u \<in> set (user_id_column (train_set toy_rs)). skips_or_fits (fit_outcome toy_alg toy_rs u)"
    unfolding u by (simp add: skips_or_fits_def o is_UserSkipAlgFit_def)
  have empty: "user_fit_dic toy_rs = []" "distinct (map fst (user_fit_dic toy_rs))"
    by (simp_all add: toy_rs_def ContentBasedRS_init_def)
  from fit_skip_does_not_abort [OF wf it ok] obtain st'
    where r: "ContentBasedRS_fit remdups toy_alg toy_rs = Inr st'"
      and g: "\<forall>u \<in> set (user_id_column (train_set toy_rs)). registered toy_alg toy_rs st' u"
      and d: "dom (map_of (user_fit_dic st'))
               = dom (map_of (user_fit_dic toy_rs)) \<union> set (user_id_column (train_set toy_rs))"
      and ds: "distinct (map fst (user_fit_dic toy_rs)) \<longrightarrow> distinct (map fst (user_fit_dic st'))
                 \<and> (\<forall>u \<in> set (user_id_column (train_set toy_rs)).
                       length (filter (\<lambda>e. fst e = u) (user_fit_dic st')) = 1)"
      and e: "user_fit_dic toy_rs = []
                \<longrightarrow> set (map fst (user_fit_dic st')) = set (user_id_column (train_set toy_rs))"
    by blast
  have g': "registered toy_alg toy_rs st' ''1''" "registered toy_alg toy_rs st' ''2''"
      "registered toy_alg toy_rs st' ''4''"
    using g unfolding u by simp_all
  have first: "\<exists>st'. ContentBasedRS_fit remdups toy_alg toy_rs = Inr st'
        \<and> registered toy_alg toy_rs st' ''1''
        \<and> registered toy_alg toy_rs st' ''2''
        \<and> registered toy_alg toy_rs st' ''4''
        \<and> dom (map_of (user_fit_dic st')) = {''1'', ''2'', ''4''}
        \<and> distinct (map fst (user_fit_dic st'))
        \<and> set (map fst (user_fit_dic st')) = {''1'', ''2'', ''4''}"
    using r g' d ds e empty unfolding u by (intro exI [of _ st']) simp
  define s where "s = snd (projr toy_fit_predict_saved)"
  have sf: "algorithm s = 0" "length (heap s) = 5" "train_set s = toy_train"
      "heap s ! 0 = toy_init" "items_directory s = ''items_dir''"
      "user_fit_dic s = [(''1'', Some 1), (''2'', None), (''3'', None), (''4'', Some 4)]"
    by (simp_all add: s_def toy_fit_predict_saved_def toy_eval)
  have wf2: "algorithm s < length (heap s)" by (simp add: sf)
  have u2: "set (user_id_column (train_set s)) = {''1'', ''2'', ''4''}"
    by (simp add: sf toy_train_def row_def user_id_column_def insert_commute)
  have o2: "fit_outcome toy_alg s v = fit_outcome toy_alg toy_rs v" for v
    by (simp add: fit_outcome_def sf toy_rs_def ContentBasedRS_init_def)
  have ok2: "\<forall>u \<in> set (user_id_column (train_set s)). skips_or_fits (fit_outcome toy_alg s u)"
    unfolding u2 o2 by (simp add: skips_or_fits_def o is_UserSkipAlgFit_def)
  from fit_skip_does_not_abort [OF wf2 it ok2] obtain st2
    where r2: "ContentBasedRS_fit remdups toy_alg s = Inr st2"
      and g2: "\<forall>u \<in> set (user_id_column (train_set s)). registered toy_alg s st2 u"
      and d2: "dom (map_of (user_fit_dic st2))
               = dom (map_of (user_fit_dic s)) \<union> set (user_id_column (train_set s))"
      and f2: "\<forall>v. v \<notin> set (user_id_column (train_set s))
                  \<longrightarrow> map_of (user_fit_dic st2) v = map_of (user_fit_dic s) v"
      and ds2: "distinct (map fst (user_fit_dic s)) \<longrightarrow> distinct (map fst (user_fit_dic st2))
                 \<and> (\<forall>u \<in> set (user_id_column (train_set s)).
                       length (filter (\<lambda>e. fst e = u) (user_fit_dic st2)) = 1)"
    by blast
  have a: "registered toy_alg s st2 ''2''" using g2 unfolding u2 by simp
  have b: "dom (map_of (user_fit_dic st2)) = {''1'', ''2'', ''3'', ''4''}"
    using d2 unfolding u2 by (auto simp: sf)
  have c: "map_of (user_fit_dic st2) ''3'' = Some None"
    using f2 unfolding u2 by (simp add: sf)
  have d3: "length (filter (\<lambda>e. fst e = ''1'') (user_fit_dic st2)) = 1"
    using ds2 unfolding u2 by (simp add: sf)
  have second: "\<exists>st'. ContentBasedRS_fit remdups toy_alg s = Inr st'
        \<and> registered toy_alg s st' ''2''
        \<and> dom (map_of (user_fit_dic st')) = {''1'', ''2'', ''3'', ''4''}
        \<and> map_of (user_fit_dic st') ''3'' = Some None
        \<and> length (filter (\<lambda>e. fst e = ''1'') (user_fit_dic st')) = 1"
    using r2 a b c d3 by (intro exI [of _ st2]) simp
  have keys: "map fst (user_fit_dic s) = [''1'', ''2'', ''3'', ''4'']" by (simp add: sf)
  show ?thesis
    using first o keys second unfolding s_def by simp
qed

text \<open>
  C7. A second \<open>fit\<close> on the unchanged train set returns as the first did, and leaves a
  Fit Registry with the same keys and the same users mapped to \<open>None\<close>. The fitted
  instances differ: the second call registers new copies.
\<close>

theorem fit_twice_same_membership:
  assumes wf: "algorithm st < length (heap st)"
    and first: "ContentBasedRS_fit it A st = Inr st1"
  shows "\<exists>st2. ContentBasedRS_fit it A st1 = Inr st2
           \<and> dom (map_of (user_fit_dic st2)) = dom (map_of (user_fit_dic st1))
           \<and> (\<forall>u. (map_of (user_fit_dic st2) u = Some None)
                   = (map_of (user_fit_dic st1) u = Some None))"
proof -
  define loaded where "loaded = load_available_contents A (heap st ! algorithm st)
      (items_directory st) (set (item_id_column (train_set st)))"
  define pbar where "pbar = map py_str (it (map PStr (user_id_column (train_set st))))"
  from first obtain acc1 where loop1: "for_loop (fit_user A loaded) st [] pbar = Inr (acc1, st1)"
    by (auto simp: ContentBasedRS_fit_loop loaded_def pbar_def split: sum.splits)
  note post1 = fit_loop_post [OF loaded_def wf loop1]
  have k: "base_kept st st1" by (rule post1(1))
  have wf1: "algorithm st1 < length (heap st1)" by (rule base_kept_base(2) [OF k])
  have same: "heap st1 ! algorithm st1 = heap st ! algorithm st" "train_set st1 = train_set st"
      "items_directory st1 = items_directory st"
    using base_kept_base(1) [OF k] k by (simp_all add: base_kept_def)
  have loaded1: "loaded = load_available_contents A (heap st1 ! algorithm st1)
      (items_directory st1) (set (item_id_column (train_set st1)))"
    by (simp add: loaded_def same)
  have o: "fit_outcome A st1 u = fit_outcome A st u" for u
    by (rule fit_outcome_base_kept [OF k])
  have "\<forall>u \<in> set pbar. skips_or_fits (fit_outcome A st1 u)"
    using post1(2) by (simp add: o)
  from fit_loop_returns [OF loaded1 wf1 this, of "[]"]
  obtain acc2 st2 where loop2: "for_loop (fit_user A loaded) st1 [] pbar = Inr (acc2, st2)"
    by blast
  note post2 = fit_loop_post [OF loaded1 wf1 loop2]
  have r: "ContentBasedRS_fit it A st1 = Inr st2"
    using loop2 by (simp add: ContentBasedRS_fit_loop same loaded_def pbar_def)
  have "set pbar \<subseteq> dom (map_of (user_fit_dic st1))" using post1(5) by simp
  then have d: "dom (map_of (user_fit_dic st2)) = dom (map_of (user_fit_dic st1))"
    using post2(5) by auto
  have n: "(map_of (user_fit_dic st2) u = Some None) = (map_of (user_fit_dic st1) u = Some None)"
    for u
  proof (cases "u \<in> set pbar")
    case True
    then have "registered A st st1 u" "registered A st1 st2 u"
      using post1(2) post2(2) by simp_all
    then show ?thesis
      by (cases "fst (fit_outcome A st u)") (auto simp: registered_def o)
  next
    case False
    then show ?thesis using post2(3) by simp
  qed
  show ?thesis using r d n by blast
qed

theorem fit_twice_same_membership_witness:
  "ContentBasedRS_fit remdups toy_alg toy_rs = Inr toy_fitted
   \<and> (\<exists>st2. ContentBasedRS_fit remdups toy_alg toy_fitted = Inr st2
          \<and> dom (map_of (user_fit_dic st2)) = {''1'', ''2'', ''4''}
          \<and> map_of (user_fit_dic st2) ''2'' = Some None
          \<and> map_of (user_fit_dic st2) ''1'' \<noteq> Some None)"
proof -
  have wf: "algorithm toy_rs < length (heap toy_rs)"
    by (simp add: toy_rs_def ContentBasedRS_init_def)
  have first: "ContentBasedRS_fit remdups toy_alg toy_rs = Inr toy_fitted"
    by (simp add: toy_fitted_def toy_eval)
  have d: "dom (map_of (user_fit_dic toy_fitted)) = {''1'', ''2'', ''4''}"
    by (simp add: toy_fitted_registry dom_map_of_conv_image_fst insert_commute)
  have m: "map_of (user_fit_dic toy_fitted) ''2'' = Some None"
      "map_of (user_fit_dic toy_fitted) ''1'' \<noteq> Some None"
    by (simp_all add: toy_fitted_registry)
  from fit_twice_same_membership [OF wf first] obtain st2
    where r: "ContentBasedRS_fit remdups toy_alg toy_fitted = Inr st2"
      and d2: "dom (map_of (user_fit_dic st2)) = dom (map_of (user_fit_dic toy_fitted))"
      and n: "\<forall>u. (map_of (user_fit_dic st2) u = Some None)
                   = (map_of (user_fit_dic toy_fitted) u = Some None)"
    by blast
  have "\<exists>st2. ContentBasedRS_fit remdups toy_alg toy_fitted = Inr st2
          \<and> dom (map_of (user_fit_dic st2)) = {''1'', ''2'', ''4''}
          \<and> map_of (user_fit_dic st2) ''2'' = Some None
          \<and> map_of (user_fit_dic st2) ''1'' \<noteq> Some None"
    using r d2 d n m by (intro exI [of _ st2]) simp
  then show ?thesis using first by simp
qed

section \<open>Which instance is fitted\<close>

lemma attempt_calls_on:
  "c \<in> set (attempt_calls A loaded a u base tr) \<Longrightarrow>
     target c = a \<and> for_user c = u \<and> (invoked_method c = Process_rated \<longrightarrow> pre_state c = base)"
  by (auto simp: attempt_calls_def Let_def split_def split: option.splits)

lemma try_fit_True_char:
  assumes "algorithm s < length (heap s)"
  shows "try_fit A loaded s True u user_train =
     (let base = heap s ! algorithm s;
          a = length (heap s)
      in (fst (fit_attempt A loaded base user_train), a,
          s\<lparr>heap := heap s @ [snd (fit_attempt A loaded base user_train)],
            user_fit_dic := AList.update u (Some a) (user_fit_dic s),
            invoked := invoked s @ attempt_calls A loaded a u base user_train\<rparr>))"
  using assms
  by (simp add: try_fit_def fit_attempt_def attempt_calls_def deepcopy_def call_process_rated_def
        call_fit_def Let_def split_def nth_append split: option.splits)

lemma try_fit_False_calls:
  "try_fit A loaded s False u user_train = (e, a, s') \<Longrightarrow>
     a = algorithm s \<and> algorithm s' = algorithm s
     \<and> (\<exists>cs. invoked s' = invoked s @ cs \<and> cs \<noteq> [] \<and> (\<forall>c \<in> set cs. target c = algorithm s))"
  by (auto simp: try_fit_def call_process_rated_def call_fit_def Let_def split_def
        split: option.splits)

lemma skip_except_Inr:
  "skip_except s sf u e = Inr (r, s') \<Longrightarrow>
     r = [] \<and> heap s' = heap s \<and> invoked s' = invoked s \<and> algorithm s' = algorithm s
     \<and> train_set s' = train_set s \<and> items_directory s' = items_directory s"
  by (auto simp: skip_except_def Let_def split: error.splits if_splits)

lemma fit_except_Inr:
  "fit_except s u e = Inr (r, s') \<Longrightarrow>
     r = [] \<and> heap s' = heap s \<and> invoked s' = invoked s \<and> algorithm s' = algorithm s
     \<and> train_set s' = train_set s \<and> items_directory s' = items_directory s"
  by (auto simp: fit_except_def split: error.splits)

text \<open>One iteration that fits a fresh copy: what it does to the heap and the history.\<close>

lemma fit_predict_user_True:
  assumes k: "base_kept st s"
    and b: "fit_predict_user A loaded test m True s uid = Inr (r, s')"
  shows "base_kept st s' \<and> length (heap s') = Suc (length (heap s))
       \<and> (\<exists>cs. invoked s' = invoked s @ cs
              \<and> (\<forall>c \<in> set cs. target c = length (heap s) \<and> for_user c = py_str uid
                     \<and> (invoked_method c = Process_rated \<longrightarrow> pre_state c = heap st ! algorithm st)))"
proof -
  have a: "algorithm s < length (heap s)" and e: "heap s ! algorithm s = heap st ! algorithm st"
    using base_kept_base [OF k] by simp_all
  define tr where "tr = get_user_interactions (train_set s) (py_str uid)"
  define s1 where "s1 = s\<lparr>heap := heap s @ [snd (fit_attempt A loaded (heap st ! algorithm st) tr)],
            user_fit_dic := AList.update (py_str uid) (Some (length (heap s))) (user_fit_dic s),
            invoked := invoked s @
              attempt_calls A loaded (length (heap s)) (py_str uid) (heap st ! algorithm st) tr\<rparr>"
  have t: "try_fit A loaded s True (py_str uid) tr
             = (fst (fit_attempt A loaded (heap st ! algorithm st) tr), length (heap s), s1)"
    by (simp add: try_fit_True_char [OF a] e s1_def Let_def)
  have k1: "base_kept st s1"
    using k base_kept_base(3) [OF k] by (simp add: s1_def base_kept_def)
  have h: "heap s' = heap s1 \<and> invoked s' = invoked s1 \<and> algorithm s' = algorithm s1
             \<and> train_set s' = train_set s1 \<and> items_directory s' = items_directory s1"
    using b skip_except_Inr [of s1 True "py_str uid" _ r s']
    by (auto simp: fit_predict_user_def tr_def [symmetric] t Let_def split: option.splits sum.splits)
  have "base_kept st s'" using k1 h by (simp add: base_kept_def)
  moreover have "length (heap s') = Suc (length (heap s))" using h by (simp add: s1_def)
  moreover have "\<exists>cs. invoked s' = invoked s @ cs
              \<and> (\<forall>c \<in> set cs. target c = length (heap s) \<and> for_user c = py_str uid
                     \<and> (invoked_method c = Process_rated \<longrightarrow> pre_state c = heap st ! algorithm st))"
    using h attempt_calls_on [of _ A loaded "length (heap s)" "py_str uid" "heap st ! algorithm st" tr]
    by (intro exI [of _ "attempt_calls A loaded (length (heap s)) (py_str uid) (heap st ! algorithm st) tr"])
       (simp add: s1_def)
  ultimately show ?thesis by simp
qed

lemma fit_rank_user_True:
  assumes k: "base_kept st s"
    and b: "fit_rank_user A loaded test n m True s uid = Inr (r, s')"
  shows "base_kept st s' \<and> length (heap s') = Suc (length (heap s))
       \<and> (\<exists>cs. invoked s' = invoked s @ cs
              \<and> (\<forall>c \<in> set cs. target c = length (heap s) \<and> for_user c = py_str uid
                     \<and> (invoked_method c = Process_rated \<longrightarrow> pre_state c = heap st ! algorithm st)))"
proof -
  have a: "algorithm s < length (heap s)" and e: "heap s ! algorithm s = heap st ! algorithm st"
    using base_kept_base [OF k] by simp_all
  define tr where "tr = get_user_interactions (train_set s) (py_str uid)"
  define s1 where "s1 = s\<lparr>heap := heap s @ [snd (fit_attempt A loaded (heap st ! algorithm st) tr)],
            user_fit_dic := AList.update (py_str uid) (Some (length (heap s))) (user_fit_dic s),
            invoked := invoked s @
              attempt_calls A loaded (length (heap s)) (py_str uid) (heap st ! algorithm st) tr\<rparr>"
  have t: "try_fit A loaded s True (py_str uid) tr
             = (fst (fit_attempt A loaded (heap st ! algorithm st) tr), length (heap s), s1)"
    by (simp add: try_fit_True_char [OF a] e s1_def Let_def)
  have k1: "base_kept st s1"
    using k base_kept_base(3) [OF k] by (simp add: s1_def base_kept_def)
  have h: "heap s' = heap s1 \<and> invoked s' = invoked s1 \<and> algorithm s' = algorithm s1
             \<and> train_set s' = train_set s1 \<and> items_directory s' = items_directory s1"
    using b skip_except_Inr [of s1 True "py_str uid" _ r s']
    by (auto simp: fit_rank_user_def tr_def [symmetric] t Let_def split: option.splits sum.splits)
  have "base_kept st s'" using k1 h by (simp add: base_kept_def)
  moreover have "length (heap s') = Suc (length (heap s))" using h by (simp add: s1_def)
  moreover have "\<exists>cs. invoked s' = invoked s @ cs
              \<and> (\<forall>c \<in> set cs. target c = length (heap s) \<and> for_user c = py_str uid
                     \<and> (invoked_method c = Process_rated \<longrightarrow> pre_state c = heap st ! algorithm st))"
    using h attempt_calls_on [of _ A loaded "length (heap s)" "py_str uid" "heap st ! algorithm st" tr]
    by (intro exI [of _ "attempt_calls A loaded (length (heap s)) (py_str uid) (heap st ! algorithm st) tr"])
       (simp add: s1_def)
  ultimately show ?thesis by simp
qed

lemma fit_user_fresh:
  assumes k: "base_kept st s"
    and L: "loaded = load_available_contents A (heap st ! algorithm st) (items_directory st)
                       (set (item_id_column (train_set st)))"
    and b: "fit_user A loaded s u = Inr (r, s')"
  shows "base_kept st s' \<and> length (heap s') = Suc (length (heap s))
       \<and> (\<exists>cs. invoked s' = invoked s @ cs
              \<and> (\<forall>c \<in> set cs. target c = length (heap s) \<and> for_user c = u
                     \<and> (invoked_method c = Process_rated \<longrightarrow> pre_state c = heap st ! algorithm st)))"
proof -
  note f = fit_user_Inr [OF k L b]
  have "\<exists>cs. invoked s' = invoked s @ cs
              \<and> (\<forall>c \<in> set cs. target c = length (heap s) \<and> for_user c = u
                     \<and> (invoked_method c = Process_rated \<longrightarrow> pre_state c = heap st ! algorithm st))"
    using attempt_calls_on [of _ A loaded "length (heap s)" u "heap st ! algorithm st"
            "get_user_interactions (train_set st) u"]
    by (intro exI [of _ "attempt_calls A loaded (length (heap s)) u (heap st ! algorithm st)
            (get_user_interactions (train_set st) u)"]) (simp add: f(6))
  then show ?thesis using f(3) f(4) by simp
qed

lemma new_calls_append: "invoked s' = invoked s @ cs \<Longrightarrow> new_calls s s' = cs"
  by (simp add: new_calls_def)

lemma isolated_loop:
  assumes loop: "for_loop body st acc xs = Inr (acc', st')"
    and wf: "algorithm st < length (heap st)"
    and step: "\<And>s x r s'. base_kept st s \<Longrightarrow> body s x = Inr (r, s') \<Longrightarrow>
        base_kept st s' \<and> length (heap s') = Suc (length (heap s))
        \<and> (\<exists>cs. invoked s' = invoked s @ cs
               \<and> (\<forall>c \<in> set cs. target c = length (heap s) \<and> for_user c = f x
                      \<and> (invoked_method c = Process_rated \<longrightarrow> pre_state c = heap st ! algorithm st)))"
  shows "isolated st (new_calls st st') \<and> base_kept st st'"
proof -
  define I where "I s \<longleftrightarrow> base_kept st s
      \<and> (\<exists>cs. invoked s = invoked st @ cs \<and> isolated st cs
              \<and> (\<forall>c \<in> set cs. target c < length (heap s)))" for s
  have I0: "I st"
    unfolding I_def using base_kept_refl [OF wf]
    by (intro conjI exI [of _ "[]"]) (simp_all add: isolated_def)
  have pres: "I s'" if i: "I s" and b: "body s x = Inr (r, s')" for s x r s'
  proof -
    from i obtain cs where k: "base_kept st s" and c: "invoked s = invoked st @ cs"
      and iso: "isolated st cs" and lt: "\<forall>c \<in> set cs. target c < length (heap s)"
      unfolding I_def by blast
    from step [OF k b] obtain ds where k': "base_kept st s'"
      and l: "length (heap s') = Suc (length (heap s))"
      and d: "invoked s' = invoked s @ ds"
      and on: "\<forall>c \<in> set ds. target c = length (heap s) \<and> for_user c = f x
                 \<and> (invoked_method c = Process_rated \<longrightarrow> pre_state c = heap st ! algorithm st)"
      by blast
    have ge: "length (heap st) \<le> length (heap s)" by (rule base_kept_base(3) [OF k])
    have fresh: "\<forall>c \<in> set ds. on_fresh_copy st c"
      using on ge wf by (auto simp: on_fresh_copy_def)
    have pair: "for_user c \<noteq> for_user d \<longrightarrow> target c \<noteq> target d"
      if "c \<in> set (cs @ ds)" "d \<in> set (cs @ ds)" for c d
    proof (cases "c \<in> set cs")
      case True
      note c_old = True
      show ?thesis
      proof (cases "d \<in> set cs")
        case True
        then show ?thesis using iso c_old by (simp add: isolated_def)
      next
        case False
        then have "d \<in> set ds" using that(2) by simp
        then show ?thesis using on lt c_old by fastforce
      qed
    next
      case False
      then have c_new: "c \<in> set ds" using that(1) by simp
      show ?thesis
      proof (cases "d \<in> set cs")
        case True
        then show ?thesis using on lt c_new by fastforce
      next
        case False
        then have "d \<in> set ds" using that(2) by simp
        then show ?thesis using on c_new by simp
      qed
    qed
    have "isolated st (cs @ ds)"
      unfolding isolated_def
    proof (intro conjI ballI)
      fix c assume "c \<in> set (cs @ ds)"
      then show "on_fresh_copy st c" using iso fresh by (auto simp: isolated_def)
    next
      fix c d assume "c \<in> set (cs @ ds)" "d \<in> set (cs @ ds)"
      then show "for_user c \<noteq> for_user d \<longrightarrow> target c \<noteq> target d" by (rule pair)
    qed
    moreover have "\<forall>c \<in> set (cs @ ds). target c < length (heap s')"
      using lt on l by auto
    moreover have "invoked s' = invoked st @ (cs @ ds)" using c d by simp
    ultimately show ?thesis unfolding I_def using k' by blast
  qed
  have "I st'"
    by (rule for_loop_invariant [where I = I, OF loop I0]) (rule pres)
  then obtain cs where "base_kept st st'" "invoked st' = invoked st @ cs" "isolated st cs"
    unfolding I_def by blast
  then show ?thesis by (simp add: new_calls_append)
qed

lemma shared_loop:
  fixes st :: "'s content_based_rs"
  assumes loop: "for_loop body st acc xs = Inr (acc', st')"
    and step: "\<And>s x r s'. algorithm s = algorithm st \<Longrightarrow> body s x = Inr (r, s') \<Longrightarrow>
        algorithm s' = algorithm st
        \<and> (\<exists>cs. invoked s' = invoked s @ cs \<and> (\<forall>c \<in> set cs. target c = algorithm st))"
  shows "\<forall>c \<in> set (new_calls st st'). target c = algorithm st"
proof -
  define I where "I s \<longleftrightarrow> algorithm s = algorithm st
      \<and> (\<exists>cs. invoked s = invoked st @ cs \<and> (\<forall>c \<in> set cs. target c = algorithm st))"
    for s :: "'s content_based_rs"
  have I0: "I st" unfolding I_def by (intro conjI exI [of _ "[]"]) simp_all
  have pres: "I s'" if i: "I s" and b: "body s x = Inr (r, s')" for s x r s'
  proof -
    from i obtain cs where a: "algorithm s = algorithm st" and c: "invoked s = invoked st @ cs"
      and on: "\<forall>c \<in> set cs. target c = algorithm st"
      unfolding I_def by blast
    from step [OF a b] obtain ds where a': "algorithm s' = algorithm st"
      and d: "invoked s' = invoked s @ ds" and on': "\<forall>c \<in> set ds. target c = algorithm st"
      by blast
    have "invoked s' = invoked st @ (cs @ ds)" using c d by simp
    moreover have "\<forall>c \<in> set (cs @ ds). target c = algorithm st" using on on' by auto
    ultimately show ?thesis unfolding I_def using a' by blast
  qed
  have "I st'"
    by (rule for_loop_invariant [where I = I, OF loop I0]) (rule pres)
  then obtain cs where "invoked st' = invoked st @ cs" "\<forall>c \<in> set cs. target c = algorithm st"
    unfolding I_def by blast
  then show ?thesis by (simp add: new_calls_append)
qed

lemma fit_predict_user_False:
  assumes "fit_predict_user A loaded test m False s uid = Inr (r, s')"
  shows "algorithm s' = algorithm s
       \<and> (\<exists>cs. invoked s' = invoked s @ cs \<and> (\<forall>c \<in> set cs. target c = algorithm s))"
proof -
  obtain e a s1 where t: "try_fit A loaded s False (py_str uid)
      (get_user_interactions (train_set s) (py_str uid)) = (e, a, s1)"
    by (metis prod_cases3)
  have h: "invoked s' = invoked s1 \<and> algorithm s' = algorithm s1"
    using assms skip_except_Inr [of s1 False "py_str uid" _ r s']
    by (auto simp: fit_predict_user_def t Let_def split: option.splits sum.splits)
  show ?thesis using try_fit_False_calls [OF t] h by auto
qed

lemma fit_rank_user_False:
  assumes "fit_rank_user A loaded test n m False s uid = Inr (r, s')"
  shows "algorithm s' = algorithm s
       \<and> (\<exists>cs. invoked s' = invoked s @ cs \<and> (\<forall>c \<in> set cs. target c = algorithm s))"
proof -
  obtain e a s1 where t: "try_fit A loaded s False (py_str uid)
      (get_user_interactions (train_set s) (py_str uid)) = (e, a, s1)"
    by (metis prod_cases3)
  have h: "invoked s' = invoked s1 \<and> algorithm s' = algorithm s1"
    using assms skip_except_Inr [of s1 False "py_str uid" _ r s']
    by (auto simp: fit_rank_user_def t Let_def split: option.splits sum.splits)
  show ?thesis using try_fit_False_calls [OF t] h by auto
qed

lemma new_calls_yaml [simp]: "new_calls st (s\<lparr>yaml_report := y\<rparr>) = new_calls st s"
  by (simp add: new_calls_def)

text \<open>
  C1, as amended. \<open>fit\<close> invokes \<open>process_rated\<close> and \<open>fit\<close> on a fresh deep copy of the
  base algorithm for every user, and so do \<open>fit_predict\<close> and \<open>fit_rank\<close> when
  \<open>save_fit\<close> is true: every call is made on an instance allocated during the operation,
  \<open>process_rated\<close> finds it in the state of the base algorithm, and calls made for
  different users are made on different instances. When \<open>save_fit\<close> is false,
  \<open>fit_predict\<close> and \<open>fit_rank\<close> make every call on the base algorithm itself.
\<close>

theorem fit_on_fresh_copy_unless_not_saved:
  assumes wf: "algorithm st < length (heap st)"
  shows "(\<forall>st'. ContentBasedRS_fit it A st = Inr st' \<longrightarrow> isolated st (new_calls st st'))
       \<and> (\<forall>p st'. ContentBasedRS_fit_predict it A st test ids m True = Inr (p, st')
              \<longrightarrow> isolated st (new_calls st st'))
       \<and> (\<forall>r st'. ContentBasedRS_fit_rank it A st test n ids m True = Inr (r, st')
              \<longrightarrow> isolated st (new_calls st st'))
       \<and> (\<forall>p st'. ContentBasedRS_fit_predict it A st test ids m False = Inr (p, st')
              \<longrightarrow> (\<forall>c \<in> set (new_calls st st'). target c = algorithm st))
       \<and> (\<forall>r st'. ContentBasedRS_fit_rank it A st test n ids m False = Inr (r, st')
              \<longrightarrow> (\<forall>c \<in> set (new_calls st st'). target c = algorithm st))"
proof (intro conjI allI impI ballI)
  fix st' assume "ContentBasedRS_fit it A st = Inr st'"
  then obtain acc' where loop: "for_loop (fit_user A
              (load_available_contents A (heap st ! algorithm st) (items_directory st)
                 (set (item_id_column (train_set st)))))
            st [] (map py_str (it (map PStr (user_id_column (train_set st))))) = Inr (acc', st')"
    by (auto simp: ContentBasedRS_fit_loop split: sum.splits)
  have "isolated st (new_calls st st') \<and> base_kept st st'"
    by (rule isolated_loop [where f = "\<lambda>u. u", OF loop wf]) (rule fit_user_fresh [OF _ refl])
  then show "isolated st (new_calls st st')" by simp
next
  fix p st' assume "ContentBasedRS_fit_predict it A st test ids m True = Inr (p, st')"
  then obtain l us s where loop: "for_loop (fit_predict_user A l test m True) st [] us = Inr (p, s)"
    and s: "st' = s\<lparr>yaml_report := Some [(''mode'', ''score_prediction''),
                                           (''methodology'', repr_methodology_opt m)]\<rparr>"
    by (auto simp: ContentBasedRS_fit_predict_def from_list_def Let_def split: sum.splits)
  have "isolated st (new_calls st s) \<and> base_kept st s"
    by (rule isolated_loop [where f = py_str, OF loop wf]) (rule fit_predict_user_True)
  then show "isolated st (new_calls st st')" by (simp add: s)
next
  fix r st' assume "ContentBasedRS_fit_rank it A st test n ids m True = Inr (r, st')"
  then obtain l us s where loop: "for_loop (fit_rank_user A l test n m True) st [] us = Inr (r, s)"
    and s: "st' = s\<lparr>yaml_report := Some [(''mode'', ''rank''), (''n_recs'', repr_n_recs n),
                                           (''methodology'', repr_methodology_opt m)]\<rparr>"
    by (auto simp: ContentBasedRS_fit_rank_def from_list_def Let_def split: sum.splits)
  have "isolated st (new_calls st s) \<and> base_kept st s"
    by (rule isolated_loop [where f = py_str, OF loop wf]) (rule fit_rank_user_True)
  then show "isolated st (new_calls st st')" by (simp add: s)
next
  fix p st' c
  assume "ContentBasedRS_fit_predict it A st test ids m False = Inr (p, st')"
    and c: "c \<in> set (new_calls st st')"
  then obtain l us s where loop: "for_loop (fit_predict_user A l test m False) st [] us = Inr (p, s)"
    and s: "st' = s\<lparr>yaml_report := Some [(''mode'', ''score_prediction''),
                                           (''methodology'', repr_methodology_opt m)]\<rparr>"
    by (auto simp: ContentBasedRS_fit_predict_def from_list_def Let_def split: sum.splits)
  have "\<forall>c \<in> set (new_calls st s). target c = algorithm st"
  proof (rule shared_loop [OF loop])
    fix s x r s'
    assume a: "algorithm s = algorithm st"
      and "fit_predict_user A l test m False s x = Inr (r, s')"
    from fit_predict_user_False [OF this(2)]
    show "algorithm s' = algorithm st
        \<and> (\<exists>cs. invoked s' = invoked s @ cs \<and> (\<forall>c \<in> set cs. target c = algorithm st))"
      by (simp add: a)
  qed
  then show "target c = algorithm st" using c by (simp add: s)
next
  fix r st' c
  assume "ContentBasedRS_fit_rank it A st test n ids m False = Inr (r, st')"
    and c: "c \<in> set (new_calls st st')"
  then obtain l us s where loop: "for_loop (fit_rank_user A l test n m False) st [] us = Inr (r, s)"
    and s: "st' = s\<lparr>yaml_report := Some [(''mode'', ''rank''), (''n_recs'', repr_n_recs n),
                                           (''methodology'', repr_methodology_opt m)]\<rparr>"
    by (auto simp: ContentBasedRS_fit_rank_def from_list_def Let_def split: sum.splits)
  have "\<forall>c \<in> set (new_calls st s). target c = algorithm st"
  proof (rule shared_loop [OF loop])
    fix s x r s'
    assume a: "algorithm s = algorithm st"
      and "fit_rank_user A l test n m False s x = Inr (r, s')"
    from fit_rank_user_False [OF this(2)]
    show "algorithm s' = algorithm st
        \<and> (\<exists>cs. invoked s' = invoked s @ cs \<and> (\<forall>c \<in> set cs. target c = algorithm st))"
      by (simp add: a)
  qed
  then show "target c = algorithm st" using c by (simp add: s)
qed

lemma toy_fit_predict_returns:
  "toy_fit_predict_saved = Inr (fst (projr toy_fit_predict_saved), snd (projr toy_fit_predict_saved))"
  "toy_fit_predict_shared = Inr (fst (projr toy_fit_predict_shared), snd (projr toy_fit_predict_shared))"
  by (simp_all add: toy_fit_predict_saved_def toy_fit_predict_shared_def toy_eval)

theorem fit_on_fresh_copy_unless_not_saved_witness:
  "algorithm toy_rs < length (heap toy_rs)
   \<and> ContentBasedRS_fit remdups toy_alg toy_rs = Inr toy_fitted
   \<and> isolated toy_rs (new_calls toy_rs toy_fitted)
   \<and> isolated toy_rs (new_calls toy_rs (snd (projr toy_fit_predict_saved)))
   \<and> target (hd (new_calls toy_rs (snd (projr toy_fit_predict_shared)))) = algorithm toy_rs"
proof -
  have wf: "algorithm toy_rs < length (heap toy_rs)"
    by (simp add: toy_rs_def ContentBasedRS_init_def)
  have first: "ContentBasedRS_fit remdups toy_alg toy_rs = Inr toy_fitted"
    by (simp add: toy_fitted_def toy_eval)
  have ne: "hd (new_calls toy_rs (snd (projr toy_fit_predict_shared)))
              \<in> set (new_calls toy_rs (snd (projr toy_fit_predict_shared)))"
    by (simp add: toy_fit_predict_shared_def new_calls_def toy_eval)
  note t = fit_on_fresh_copy_unless_not_saved [OF wf, of remdups toy_alg toy_test None
             "Some TestRatingsMethodology" None]
  have 1: "isolated toy_rs (new_calls toy_rs toy_fitted)"
    using t first by blast
  have 2: "isolated toy_rs (new_calls toy_rs (snd (projr toy_fit_predict_saved)))"
    using t toy_fit_predict_returns(1) unfolding toy_fit_predict_saved_def by blast
  have 3: "\<forall>c \<in> set (new_calls toy_rs (snd (projr toy_fit_predict_shared))).
             target c = algorithm toy_rs"
    using t toy_fit_predict_returns(2) unfolding toy_fit_predict_shared_def by blast
  show ?thesis using wf first 1 2 3 ne by blast
qed

text \<open>
  C1 as stated fails: \<open>fit_predict\<close> with \<open>save_fit\<close> false returns normally on the
  example, having made all six calls on the base algorithm at address 0, so the calls
  are not isolated; the ratings of user 1 are still in the instance when user 4 is
  fitted, and user 4's prediction is 16 where per-user copies give 8.
\<close>

theorem fit_predict_not_saved_shares_instance:
  "\<not> isl toy_fit_predict_shared
   \<and> algorithm toy_rs = 0
   \<and> map target (new_calls toy_rs (snd (projr toy_fit_predict_shared))) = [0, 0, 0, 0, 0, 0]
   \<and> \<not> isolated toy_rs (new_calls toy_rs (snd (projr toy_fit_predict_shared)))
   \<and> fst (projr toy_fit_predict_shared)
       = [row ''1'' ''a'' 11, row ''1'' ''b'' 13, row ''4'' ''c'' 16]
   \<and> fst (projr toy_fit_predict_saved)
       = [row ''1'' ''a'' 11, row ''1'' ''b'' 13, row ''4'' ''c'' 8]"
proof -
  have a: "algorithm toy_rs = 0"
    by (simp add: toy_rs_def ContentBasedRS_init_def)
  have r: "\<not> isl toy_fit_predict_shared"
    by (simp add: toy_fit_predict_shared_def toy_eval)
  have t: "map target (new_calls toy_rs (snd (projr toy_fit_predict_shared))) = [0, 0, 0, 0, 0, 0]"
    by (simp add: toy_fit_predict_shared_def new_calls_def toy_eval)
  have p: "fst (projr toy_fit_predict_shared)
       = [row ''1'' ''a'' 11, row ''1'' ''b'' 13, row ''4'' ''c'' 16]"
    by (simp add: toy_fit_predict_shared_def toy_eval)
  have q: "fst (projr toy_fit_predict_saved)
       = [row ''1'' ''a'' 11, row ''1'' ''b'' 13, row ''4'' ''c'' 8]"
    by (simp add: toy_fit_predict_saved_def toy_eval)
  have n: "\<not> isolated toy_rs (new_calls toy_rs (snd (projr toy_fit_predict_shared)))"
  proof
    assume "isolated toy_rs (new_calls toy_rs (snd (projr toy_fit_predict_shared)))"
    then have "\<forall>c \<in> set (new_calls toy_rs (snd (projr toy_fit_predict_shared))).
                 target c \<noteq> algorithm toy_rs"
      by (simp add: isolated_def on_fresh_copy_def)
    then have "\<forall>x \<in> set (map target (new_calls toy_rs (snd (projr toy_fit_predict_shared)))).
                 x \<noteq> algorithm toy_rs"
      by simp
    then show False unfolding t a by simp
  qed
  show ?thesis using a r t p q n by simp
qed

section \<open>Properties of \<open>GraphBasedRS\<close>\<close>

lemmas toy_graph_eval =
  toy_graph_alg_def toy_graph_rs_def GraphBasedRS_predict_def GraphBasedRS_rank_def
  filter_dict_of_def to_ratings_def all_users_of_def from_list_def user_id_column_def
  get_user_interactions_def toy_train_def toy_test_def row_def top_n_def
  repr_methodology_opt_def repr_n_recs_def Let_def

lemma GraphBasedRS_predict_never_warns:
  "GraphBasedRS_predict it G st test ids m = Inr (p, st') \<Longrightarrow> graph_logger st' = graph_logger st"
  by (auto simp: GraphBasedRS_predict_def Let_def split: sum.splits)

lemma GraphBasedRS_rank_returns:
  "graph_rank G (all_users_of it test ids) (graph st) n (filter_dict_of m (graph st) test) = Inr rs
   \<Longrightarrow> \<exists>st'. GraphBasedRS_rank it G st test n ids m = Inr (rs, st')"
  by (simp add: GraphBasedRS_rank_def from_list_def Let_def)

lemma GraphBasedRS_rank_warns_empty:
  assumes "GraphBasedRS_rank it G st test n ids m = Inr ([], st')"
  shows "graph_logger st' = graph_logger st @ [Warning_no_items_ranked_any]"
  using assms
  by (auto simp: GraphBasedRS_rank_def from_list_def Let_def split: sum.splits)

lemma GraphBasedRS_rank_warns_dropped:
  assumes r: "GraphBasedRS_rank it G st test n ids m = Inr (rs, st')"
    and ne: "rs \<noteq> []"
    and sub: "PStr ` set (user_id_column rs) \<subset> set (all_users_of it test ids)"
  shows "graph_logger st' = graph_logger st @
           [Warning_no_items_ranked_for
              (set (all_users_of it test ids) - PStr ` set (user_id_column rs))]"
proof -
  have "card (PStr ` set (user_id_column rs)) < card (set (all_users_of it test ids))"
    by (rule psubset_card_mono [OF _ sub]) simp
  moreover have "card (PStr ` set (user_id_column rs)) = length (remdups (user_id_column rs))"
    by (simp add: card_image inj_on_def length_remdups_card_conv)
  moreover have "card (set (all_users_of it test ids))
                   = length (remdups (all_users_of it test ids))"
    by (simp add: length_remdups_card_conv)
  ultimately have "length (remdups (user_id_column rs))
                     \<noteq> length (remdups (all_users_of it test ids))"
    by simp
  then show ?thesis
    using r ne
    by (auto simp: GraphBasedRS_rank_def from_list_def Let_def split: sum.splits)
qed

text \<open>
  C5. \<open>GraphBasedRS.rank\<close> warns when no user is covered and when only some of the
  requested users are, and returns normally. \<open>GraphBasedRS.predict\<close> returns normally
  too, but it has no such warnings: on the example graph, asked for a user without a
  node and then for the users of the test set (user 3 has no node), \<open>predict\<close> leaves
  the log empty where \<open>rank\<close> records one warning each time.
\<close>

theorem GraphBasedRS_predict_emits_no_warning:
  "GraphBasedRS_predict remdups toy_graph_alg toy_graph_rs toy_test (Some [PStr ''9'']) None
     = Inr ([], toy_graph_rs\<lparr>graph_yaml_report :=
                 Some [(''graph'', ''FullDiGraph''), (''mode'', ''score_prediction''),
                       (''methodology'', ''None'')]\<rparr>)
   \<and> graph_logger (snd (projr
        (GraphBasedRS_predict remdups toy_graph_alg toy_graph_rs toy_test (Some [PStr ''9'']) None)))
       = []
   \<and> graph_logger (snd (projr
        (GraphBasedRS_rank remdups toy_graph_alg toy_graph_rs toy_test None (Some [PStr ''9'']) None)))
       = [Warning_no_items_ranked_any]
   \<and> fst (projr (GraphBasedRS_predict remdups toy_graph_alg toy_graph_rs toy_test None None))
       = [row ''1'' ''a'' 3, row ''1'' ''b'' 5, row ''2'' ''a'' 1, row ''4'' ''c'' 4]
   \<and> graph_logger (snd (projr
        (GraphBasedRS_predict remdups toy_graph_alg toy_graph_rs toy_test None None)))
       = []
   \<and> graph_logger (snd (projr
        (GraphBasedRS_rank remdups toy_graph_alg toy_graph_rs toy_test None None None)))
       = [Warning_no_items_ranked_for {PStr ''3''}]"
  by (simp add: toy_graph_eval) (auto simp: row_def)

section \<open>Properties of \<open>MetricEvaluator.eval_metrics\<close>\<close>

lemma truth_of_predicted_idem:
  "truth_of_predicted (truth_of_predicted sp) = truth_of_predicted sp"
  "pred (truth_of_predicted sp) = pred sp"
  by (simp_all add: truth_of_predicted_def)

lemma eval_split_store:
  "fst (eval_split mt (s, rs) b) =
     (if pred (s ! b) \<noteq> [] \<and> truth (s ! b) \<noteq> [] then s[b := truth_of_predicted (s ! b)] else s)"
  by (simp add: eval_split_def truth_of_predicted_def Let_def)

lemma eval_split_step:
  assumes len: "length s = length store"
    and inv: "\<forall>i < length store. s ! i = store ! i \<or> s ! i = truth_of_predicted (store ! i)"
    and b: "b < length store"
    and s': "s' = fst (eval_split mt (s, rs) b)"
  shows "length s' = length store"
    and "\<forall>i < length store. s' ! i = store ! i \<or> s' ! i = truth_of_predicted (store ! i)"
    and "pred (store ! b) \<noteq> [] \<and> truth (store ! b) \<noteq> [] \<longrightarrow> s' ! b = truth_of_predicted (store ! b)"
    and "\<forall>a < length store. s ! a = truth_of_predicted (store ! a) \<longrightarrow> s' ! a = truth_of_predicted (store ! a)"
proof -
  have c: "s ! b = store ! b \<or> s ! b = truth_of_predicted (store ! b)" using inv b by simp
  show "length s' = length store" using len by (simp add: s' eval_split_store)
  show "\<forall>i < length store. s' ! i = store ! i \<or> s' ! i = truth_of_predicted (store ! i)"
  proof (intro allI impI)
    fix i assume i: "i < length store"
    show "s' ! i = store ! i \<or> s' ! i = truth_of_predicted (store ! i)"
    proof (cases "i = b")
      case True
      then show ?thesis using c len b
        by (auto simp: s' eval_split_store truth_of_predicted_idem)
    next
      case False
      then show ?thesis using inv i by (simp add: s' eval_split_store)
    qed
  qed
  show "pred (store ! b) \<noteq> [] \<and> truth (store ! b) \<noteq> [] \<longrightarrow> s' ! b = truth_of_predicted (store ! b)"
    using c len b by (auto simp: s' eval_split_store truth_of_predicted_idem)
  show "\<forall>a < length store. s ! a = truth_of_predicted (store ! a) \<longrightarrow> s' ! a = truth_of_predicted (store ! a)"
  proof (intro allI impI)
    fix a assume a: "a < length store" and e: "s ! a = truth_of_predicted (store ! a)"
    show "s' ! a = truth_of_predicted (store ! a)"
    proof (cases "a = b")
      case True
      then show ?thesis using e len b
        by (auto simp: s' eval_split_store truth_of_predicted_idem)
    next
      case False
      then show ?thesis using e by (simp add: s' eval_split_store)
    qed
  qed
qed

lemma eval_splits_post:
  assumes "length s = length store"
    and "\<forall>i < length store. s ! i = store ! i \<or> s ! i = truth_of_predicted (store ! i)"
    and "\<forall>b \<in> set bs. b < length store"
  shows "length (fst (eval_splits mt (s, rs) bs)) = length store
       \<and> (\<forall>i < length store. fst (eval_splits mt (s, rs) bs) ! i = store ! i
              \<or> fst (eval_splits mt (s, rs) bs) ! i = truth_of_predicted (store ! i))
       \<and> (\<forall>b \<in> set bs. pred (store ! b) \<noteq> [] \<and> truth (store ! b) \<noteq> []
              \<longrightarrow> fst (eval_splits mt (s, rs) bs) ! b = truth_of_predicted (store ! b))
       \<and> (\<forall>a < length store. s ! a = truth_of_predicted (store ! a)
              \<longrightarrow> fst (eval_splits mt (s, rs) bs) ! a = truth_of_predicted (store ! a))"
  using assms
proof (induction bs arbitrary: s rs)
  case Nil
  then show ?case by simp
next
  case (Cons b bs)
  obtain s1 rs1 where e: "eval_split mt (s, rs) b = (s1, rs1)" by (cases "eval_split mt (s, rs) b")
  have b: "b < length store" using Cons.prems(3) by simp
  have s1: "s1 = fst (eval_split mt (s, rs) b)" using e by simp
  note st = eval_split_step [OF Cons.prems(1,2) b s1]
  have bs: "\<forall>b \<in> set bs. b < length store" using Cons.prems(3) by simp
  note ih = Cons.IH [OF st(1) st(2) bs, of rs1]
  define t where "t = fst (eval_splits mt (s1, rs1) bs)"
  have r: "fst (eval_splits mt (s, rs) (b # bs)) = t" by (simp add: e t_def)
  have 1: "length t = length store" using ih by (simp add: t_def)
  have 2: "\<forall>i < length store. t ! i = store ! i \<or> t ! i = truth_of_predicted (store ! i)"
    using ih by (simp add: t_def)
  have 3: "\<forall>c \<in> set bs. pred (store ! c) \<noteq> [] \<and> truth (store ! c) \<noteq> []
              \<longrightarrow> t ! c = truth_of_predicted (store ! c)"
    using ih by (simp add: t_def)
  have 4: "\<forall>a < length store. s1 ! a = truth_of_predicted (store ! a)
              \<longrightarrow> t ! a = truth_of_predicted (store ! a)"
    using ih by (simp add: t_def)
  have 5: "pred (store ! b) \<noteq> [] \<and> truth (store ! b) \<noteq> [] \<longrightarrow> t ! b = truth_of_predicted (store ! b)"
    using st(3) 4 b by blast
  have 6: "\<forall>a < length store. s ! a = truth_of_predicted (store ! a)
              \<longrightarrow> t ! a = truth_of_predicted (store ! a)"
    using st(4) 4 by blast
  show ?case unfolding r using 1 2 3 5 6 by simp
qed

lemma eval_metrics_loop_post:
  assumes "length s = length store"
    and "\<forall>i < length store. s ! i = store ! i \<or> s ! i = truth_of_predicted (store ! i)"
    and "\<forall>b \<in> set (evaluated_splits sl ms). b < length store"
    and "eval_metrics_loop P sl s fs ms = (Inr fs', s')"
  shows "length s' = length store
       \<and> (\<forall>i < length store. s' ! i = store ! i \<or> s' ! i = truth_of_predicted (store ! i))
       \<and> (\<forall>b \<in> set (evaluated_splits sl ms). pred (store ! b) \<noteq> [] \<and> truth (store ! b) \<noteq> []
              \<longrightarrow> s' ! b = truth_of_predicted (store ! b))
       \<and> (\<forall>a < length store. s ! a = truth_of_predicted (store ! a)
              \<longrightarrow> s' ! a = truth_of_predicted (store ! a))"
  using assms
proof (induction ms arbitrary: s fs)
  case Nil
  then show ?case by (simp add: evaluated_splits_def)
next
  case (Cons mt ms)
  define bs where "bs = splits_of sl mt"
  obtain s1 rl where e: "eval_splits mt (s, []) bs = (s1, rl)"
    by (cases "eval_splits mt (s, []) bs")
  have sp: "(case sl of None \<Rightarrow> get_pred_truth_list mt | Some l \<Rightarrow> l) = bs"
    by (simp add: bs_def splits_of_def)
  have bnd: "\<forall>b \<in> set bs. b < length store" and bnd': "\<forall>b \<in> set (evaluated_splits sl ms). b < length store"
    using Cons.prems(3) by (simp_all add: evaluated_splits_def bs_def)
  have s1: "s1 = fst (eval_splits mt (s, []) bs)" using e by simp
  note p = eval_splits_post [OF Cons.prems(1,2) bnd, of mt "[]", folded s1]
  from Cons.prems(4) obtain fs1 where rec: "eval_metrics_loop P sl s1 fs1 ms = (Inr fs', s')"
    by (auto simp: sp e Let_def split: sum.splits if_splits)
  have l1: "length s1 = length store" using p by simp
  have i1: "\<forall>i < length store. s1 ! i = store ! i \<or> s1 ! i = truth_of_predicted (store ! i)"
    using p by simp
  note ih = Cons.IH [OF l1 i1 bnd' rec]
  have keep: "\<forall>a < length store. s1 ! a = truth_of_predicted (store ! a)
              \<longrightarrow> s' ! a = truth_of_predicted (store ! a)"
    using ih by simp
  have a: "\<forall>b \<in> set bs. pred (store ! b) \<noteq> [] \<and> truth (store ! b) \<noteq> []
              \<longrightarrow> s' ! b = truth_of_predicted (store ! b)"
    using p keep bnd by blast
  have b: "\<forall>a < length store. s ! a = truth_of_predicted (store ! a)
              \<longrightarrow> s' ! a = truth_of_predicted (store ! a)"
    using p keep by blast
  have c: "set (evaluated_splits sl (mt # ms)) = set bs \<union> set (evaluated_splits sl ms)"
    by (simp add: evaluated_splits_def bs_def)
  show ?case unfolding c using ih a b by auto
qed

lemma eval_metrics_returns:
  assumes "eval_metrics P sl store ms = (Inr res, store')"
  shows "\<exists>fs. eval_metrics_loop P sl store [] ms = (Inr fs, store') \<and> fs \<noteq> []"
  using assms
  by (auto simp: eval_metrics_def pd_concat_def split: prod.splits sum.splits if_splits)

text \<open>
  C10. \<open>eval_metrics\<close> of orange_cb_recsys changes its input. When it returns, every
  split it evaluated that had predictions and truth holds, in the store the caller
  shares, its truth restricted to the users that have predictions; the predictions are
  as they were, and every other split is unchanged or restricted in the same way.
\<close>

theorem eval_metrics_restricts_truth_in_place:
  assumes ret: "eval_metrics P sl store ms = (Inr res, store')"
    and dom: "\<forall>b \<in> set (evaluated_splits sl ms). b < length store"
  shows "length store' = length store
       \<and> (\<forall>b \<in> set (evaluated_splits sl ms). pred (store ! b) \<noteq> [] \<and> truth (store ! b) \<noteq> []
              \<longrightarrow> store' ! b = truth_of_predicted (store ! b))
       \<and> (\<forall>i < length store. pred (store' ! i) = pred (store ! i)
              \<and> (store' ! i = store ! i \<or> store' ! i = truth_of_predicted (store ! i)))"
proof -
  from eval_metrics_returns [OF ret] obtain fs
    where loop: "eval_metrics_loop P sl store [] ms = (Inr fs, store')" by blast
  have p: "length store' = length store
       \<and> (\<forall>i < length store. store' ! i = store ! i \<or> store' ! i = truth_of_predicted (store ! i))
       \<and> (\<forall>b \<in> set (evaluated_splits sl ms). pred (store ! b) \<noteq> [] \<and> truth (store ! b) \<noteq> []
              \<longrightarrow> store' ! b = truth_of_predicted (store ! b))
       \<and> (\<forall>a < length store. store ! a = truth_of_predicted (store ! a)
              \<longrightarrow> store' ! a = truth_of_predicted (store ! a))"
    by (rule eval_metrics_loop_post [OF _ _ dom loop]) simp_all
  have "pred (store' ! i) = pred (store ! i)" if "i < length store" for i
    using p that by (metis truth_of_predicted_idem(2))
  then show ?thesis using p by simp
qed

lemmas toy_metric_eval =
  eval_metrics_def eval_split_def pd_concat_def toy_pandas_def toy_metric_def toy_store_def
  frow_def truth_of_predicted_def evaluated_splits_def splits_of_def Let_def

theorem eval_metrics_restricts_truth_in_place_witness:
  "eval_metrics toy_pandas (Some [0, 1]) toy_store [toy_metric]
     = (Inr ([(''sys'', 1)], [(''u1'', 1)]),
        [\<lparr>pred = [frow ''u1'' ''a'' 4], truth = [frow ''u1'' ''a'' 5]\<rparr>,
         \<lparr>pred = [], truth = [frow ''u3'' ''c'' 1]\<rparr>])
   \<and> snd (eval_metrics toy_pandas (Some [0, 1]) toy_store [toy_metric]) ! 0
       = truth_of_predicted (toy_store ! 0)
   \<and> truth_of_predicted (toy_store ! 0) \<noteq> toy_store ! 0"
proof -
  have ret: "eval_metrics toy_pandas (Some [0, 1]) toy_store [toy_metric]
     = (Inr ([(''sys'', 1)], [(''u1'', 1)]),
        [\<lparr>pred = [frow ''u1'' ''a'' 4], truth = [frow ''u1'' ''a'' 5]\<rparr>,
         \<lparr>pred = [], truth = [frow ''u3'' ''c'' 1]\<rparr>])"
    by (simp add: toy_metric_eval)
  have dom: "\<forall>b \<in> set (evaluated_splits (Some [0, 1]) [toy_metric]). b < length toy_store"
    by (simp add: evaluated_splits_def splits_of_def toy_store_def)
  have q: "0 \<in> set (evaluated_splits (Some [0, 1]) [toy_metric])"
      "pred (toy_store ! 0) \<noteq> [] \<and> truth (toy_store ! 0) \<noteq> []"
    by (simp_all add: evaluated_splits_def splits_of_def toy_store_def)
  have n: "truth_of_predicted (toy_store ! 0) \<noteq> toy_store ! 0"
    by (simp add: truth_of_predicted_def toy_store_def frow_def)
  note t = eval_metrics_restricts_truth_in_place [OF ret dom]
  have "\<forall>b \<in> set (evaluated_splits (Some [0, 1]) [toy_metric]).
          pred (toy_store ! b) \<noteq> [] \<and> truth (toy_store ! b) \<noteq> []
          \<longrightarrow> snd (eval_metrics toy_pandas (Some [0, 1]) toy_store [toy_metric]) ! b
                = truth_of_predicted (toy_store ! b)"
    using t unfolding ret by simp
  from bspec [OF this q(1)] q(2)
  have "snd (eval_metrics toy_pandas (Some [0, 1]) toy_store [toy_metric]) ! 0
       = truth_of_predicted (toy_store ! 0)"
    by blast
  then show ?thesis using ret n by simp
qed

section \<open>Identifiers that are not strings\<close>

lemma for_loop_map:
  assumes "\<And>s x. body s x = g s (f x)"
  shows "for_loop body st acc xs = for_loop g st acc (map f xs)"
  by (induction xs arbitrary: st acc) (simp_all add: assms split: sum.splits prod.splits)

lemma user_steps_use_string_form:
  "rank_user A l t n m s uid = rank_user A l t n m s (PStr (py_str uid))"
  "predict_user A l t m s uid = predict_user A l t m s (PStr (py_str uid))"
  "fit_predict_user A l t m sf s uid = fit_predict_user A l t m sf s (PStr (py_str uid))"
  "fit_rank_user A l t n m sf s uid = fit_rank_user A l t n m sf s (PStr (py_str uid))"
  by (simp_all add: rank_user_def predict_user_def fit_predict_user_def fit_rank_user_def)

lemma for_loop_string_forms:
  assumes "\<And>s x. body s x = body s (PStr (py_str x))"
    and "map py_str xs = map py_str ys"
  shows "for_loop body st acc xs = for_loop body st acc ys"
proof -
  have "for_loop body st acc xs = for_loop (\<lambda>s v. body s (PStr v)) st acc (map py_str xs)"
    by (rule for_loop_map) (rule assms(1))
  also have "\<dots> = for_loop (\<lambda>s v. body s (PStr v)) st acc (map py_str ys)"
    by (simp add: assms(2))
  also have "\<dots> = for_loop body st acc ys"
    by (rule for_loop_map [symmetric]) (rule assms(1))
  finally show ?thesis .
qed

text \<open>
  \<open>rank\<close>, \<open>predict\<close>, \<open>fit_predict\<close> and \<open>fit_rank\<close> use of every iterated identifier
  only its string form: the loops give the same result on two sequences of identifiers
  that have, one by one, the same string forms.
\<close>

lemma string_forms_same_result:
  assumes "map py_str (it ids) = map py_str (it (string_forms ids))"
  shows "ContentBasedRS_rank it A st test n (Some ids) m
           = ContentBasedRS_rank it A st test n (Some (string_forms ids)) m
       \<and> ContentBasedRS_predict it A st test (Some ids) m
           = ContentBasedRS_predict it A st test (Some (string_forms ids)) m
       \<and> ContentBasedRS_fit_predict it A st test (Some ids) m sf
           = ContentBasedRS_fit_predict it A st test (Some (string_forms ids)) m sf
       \<and> ContentBasedRS_fit_rank it A st test n (Some ids) m sf
           = ContentBasedRS_fit_rank it A st test n (Some (string_forms ids)) m sf
       \<and> rank_user A l test n m st uid = rank_user A l test n m st (PStr (py_str uid))
       \<and> predict_user A l test m st uid = predict_user A l test m st (PStr (py_str uid))
       \<and> fit_predict_user A l test m sf st uid = fit_predict_user A l test m sf st (PStr (py_str uid))
       \<and> fit_rank_user A l test n m sf st uid = fit_rank_user A l test n m sf st (PStr (py_str uid))"
proof -
  have 1: "for_loop (rank_user A l' test n m) st [] (it ids)
             = for_loop (rank_user A l' test n m) st [] (it (string_forms ids))" for l'
    by (rule for_loop_string_forms [where body = "rank_user A l' test n m", OF _ assms])
       (rule user_steps_use_string_form(1))
  have 2: "for_loop (predict_user A l' test m) st [] (it ids)
             = for_loop (predict_user A l' test m) st [] (it (string_forms ids))" for l'
    by (rule for_loop_string_forms [where body = "predict_user A l' test m", OF _ assms])
       (rule user_steps_use_string_form(2))
  have 3: "for_loop (fit_predict_user A l' test m sf) st [] (it ids)
             = for_loop (fit_predict_user A l' test m sf) st [] (it (string_forms ids))" for l'
    by (rule for_loop_string_forms [where body = "fit_predict_user A l' test m sf", OF _ assms])
       (rule user_steps_use_string_form(3))
  have 4: "for_loop (fit_rank_user A l' test n m sf) st [] (it ids)
             = for_loop (fit_rank_user A l' test n m sf) st [] (it (string_forms ids))" for l'
    by (rule for_loop_string_forms [where body = "fit_rank_user A l' test n m sf", OF _ assms])
       (rule user_steps_use_string_form(4))
  have a: "ContentBasedRS_rank it A st test n (Some ids) m
           = ContentBasedRS_rank it A st test n (Some (string_forms ids)) m"
    by (simp add: ContentBasedRS_rank_def all_users_of_def Let_def 1)
  have b: "ContentBasedRS_predict it A st test (Some ids) m
           = ContentBasedRS_predict it A st test (Some (string_forms ids)) m"
    by (simp add: ContentBasedRS_predict_def all_users_of_def Let_def 2)
  have c: "ContentBasedRS_fit_predict it A st test (Some ids) m sf
           = ContentBasedRS_fit_predict it A st test (Some (string_forms ids)) m sf"
    by (simp add: ContentBasedRS_fit_predict_def all_users_of_def Let_def 3)
  have d: "ContentBasedRS_fit_rank it A st test n (Some ids) m sf
           = ContentBasedRS_fit_rank it A st test n (Some (string_forms ids)) m sf"
    by (simp add: ContentBasedRS_fit_rank_def all_users_of_def Let_def 4)
  show ?thesis
    by (intro conjI a b c d user_steps_use_string_form)
qed

lemmas str_eval = string_forms_def str_int_def str_nat.simps digit_char_def

lemmas toy_rank_eval =
  ContentBasedRS_rank_def rank_user_def ContentBasedRS_predict_def predict_user_def
  all_users_of_def toy_fitted_registry
  toy_fitted_heap toy_fitted_fields toy_train_def toy_test_def row_def toy_alg_def
  toy_predict_def top_n_def passes_def filter_list_of_def dict_get_def
  get_user_interactions_def item_id_column_def TestRatingsMethodology_def from_list_def
  Let_def

text \<open>
  C9. The loops convert each identifier to its string form before the train lookup, the
  methodology filter and the registry access, but the set of users is built from the
  identifiers as given, before the conversion. For the list \<open>[1, '1']\<close> the set has two
  elements, both with the string form \<open>'1'\<close>: user 1 is ranked twice and the container holds
  four records, where the call with the string forms \<open>['1', '1']\<close> iterates one user and
  returns two; \<open>predict\<close> differs in the same way.
\<close>

theorem string_forms_differ:
  "remdups [PInt 1, PStr ''1''] = [PInt 1, PStr ''1'']
   \<and> string_forms [PInt 1, PStr ''1''] = [PStr ''1'', PStr ''1'']
   \<and> remdups (string_forms [PInt 1, PStr ''1'']) = [PStr ''1'']
   \<and> fst (projr (ContentBasedRS_rank remdups toy_alg toy_fitted toy_test None
        (Some [PInt 1, PStr ''1'']) (Some TestRatingsMethodology)))
     = [row ''1'' ''b'' 13, row ''1'' ''a'' 11, row ''1'' ''b'' 13, row ''1'' ''a'' 11]
   \<and> fst (projr (ContentBasedRS_rank remdups toy_alg toy_fitted toy_test None
        (Some (string_forms [PInt 1, PStr ''1''])) (Some TestRatingsMethodology)))
     = [row ''1'' ''b'' 13, row ''1'' ''a'' 11]
   \<and> ContentBasedRS_rank remdups toy_alg toy_fitted toy_test None
        (Some [PInt 1, PStr ''1'']) (Some TestRatingsMethodology)
     \<noteq> ContentBasedRS_rank remdups toy_alg toy_fitted toy_test None
        (Some (string_forms [PInt 1, PStr ''1''])) (Some TestRatingsMethodology)
   \<and> fst (projr (ContentBasedRS_predict remdups toy_alg toy_fitted toy_test
        (Some [PInt 1, PStr ''1'']) (Some TestRatingsMethodology)))
     = [row ''1'' ''a'' 11, row ''1'' ''b'' 13, row ''1'' ''a'' 11, row ''1'' ''b'' 13]
   \<and> fst (projr (ContentBasedRS_predict remdups toy_alg toy_fitted toy_test
        (Some (string_forms [PInt 1, PStr ''1''])) (Some TestRatingsMethodology)))
     = [row ''1'' ''a'' 11, row ''1'' ''b'' 13]"
proof -
  have s1: "string_forms [PInt 1, PStr ''1''] = [PStr ''1'', PStr ''1'']"
    by (simp add: str_eval)
  have r0: "remdups [PInt 1, PStr ''1''] = [PInt 1, PStr ''1'']"
    by simp
  have r1: "remdups (string_forms [PInt 1, PStr ''1'']) = [PStr ''1'']"
    unfolding s1 by simp
  have 1: "fst (projr (ContentBasedRS_rank remdups toy_alg toy_fitted toy_test None
        (Some [PInt 1, PStr ''1'']) (Some TestRatingsMethodology)))
     = [row ''1'' ''b'' 13, row ''1'' ''a'' 11, row ''1'' ''b'' 13, row ''1'' ''a'' 11]"
    by (simp add: toy_rank_eval str_eval)
  have 2: "fst (projr (ContentBasedRS_rank remdups toy_alg toy_fitted toy_test None
        (Some (string_forms [PInt 1, PStr ''1''])) (Some TestRatingsMethodology)))
     = [row ''1'' ''b'' 13, row ''1'' ''a'' 11]"
    unfolding s1 by (simp add: toy_rank_eval)
  have 3: "fst (projr (ContentBasedRS_predict remdups toy_alg toy_fitted toy_test
        (Some [PInt 1, PStr ''1'']) (Some TestRatingsMethodology)))
     = [row ''1'' ''a'' 11, row ''1'' ''b'' 13, row ''1'' ''a'' 11, row ''1'' ''b'' 13]"
    by (simp add: toy_rank_eval str_eval)
  have 4: "fst (projr (ContentBasedRS_predict remdups toy_alg toy_fitted toy_test
        (Some (string_forms [PInt 1, PStr ''1''])) (Some TestRatingsMethodology)))
     = [row ''1'' ''a'' 11, row ''1'' ''b'' 13]"
    unfolding s1 by (simp add: toy_rank_eval)
  have 5: "ContentBasedRS_rank remdups toy_alg toy_fitted toy_test None
        (Some [PInt 1, PStr ''1'']) (Some TestRatingsMethodology)
     \<noteq> ContentBasedRS_rank remdups toy_alg toy_fitted toy_test None
        (Some (string_forms [PInt 1, PStr ''1''])) (Some TestRatingsMethodology)"
  proof
    assume "ContentBasedRS_rank remdups toy_alg toy_fitted toy_test None
        (Some [PInt 1, PStr ''1'']) (Some TestRatingsMethodology)
      = ContentBasedRS_rank remdups toy_alg toy_fitted toy_test None
        (Some (string_forms [PInt 1, PStr ''1''])) (Some TestRatingsMethodology)"
    then have "fst (projr (ContentBasedRS_rank remdups toy_alg toy_fitted toy_test None
        (Some [PInt 1, PStr ''1'']) (Some TestRatingsMethodology)))
      = fst (projr (ContentBasedRS_rank remdups toy_alg toy_fitted toy_test None
        (Some (string_forms [PInt 1, PStr ''1''])) (Some TestRatingsMethodology)))"
      by (rule arg_cong)
    then have "[row ''1'' ''b'' 13, row ''1'' ''a'' 11, row ''1'' ''b'' 13, row ''1'' ''a'' 11]
      = [row ''1'' ''b'' 13, row ''1'' ''a'' 11]"
      unfolding 1 2 .
    then show False by simp
  qed
  show ?thesis
    by (intro conjI r0 s1 r1 1 2 3 4 5)
qed

section \<open>The order of a user's records in a rank\<close>

lemma user_records_append: "user_records (xs @ ys) u = user_records xs u @ user_records ys u"
  by (simp add: user_records_def)

lemma user_records_all: "\<forall>e \<in> set r. user_id e = v \<Longrightarrow> user_records r v = r"
  by (simp add: user_records_def)

lemma user_records_none: "\<forall>e \<in> set r. user_id e = v \<Longrightarrow> u \<noteq> v \<Longrightarrow> user_records r u = []"
  by (auto simp: user_records_def filter_empty_conv)

lemma rank_user_block:
  assumes c: "rank_contract A"
    and b: "rank_user A l t n m st x = Inr (r, s1)"
  shows "non_increasing (map score r)"
    and "\<forall>k. n = Some k \<longrightarrow> 0 \<le> k \<longrightarrow> int (length r) \<le> k"
    and "\<forall>e \<in> set r. user_id e = py_str x"
proof -
  have "r = [] \<or> (\<exists>s f. alg_rank A s (get_user_interactions (train_set st) (py_str x)) l n f = Inr r)"
    using b by (auto simp: rank_user_def Let_def split: option.splits sum.splits)
  then have p: "non_increasing (map score r)
        \<and> (\<forall>k. n = Some k \<longrightarrow> 0 \<le> k \<longrightarrow> int (length r) \<le> k)
        \<and> (\<forall>e \<in> set r. user_id e \<in> set (user_id_column (get_user_interactions (train_set st) (py_str x))))"
  proof
    assume "r = []"
    then show ?thesis by (simp add: non_increasing_def)
  next
    assume "\<exists>s f. alg_rank A s (get_user_interactions (train_set st) (py_str x)) l n f = Inr r"
    then obtain s f where "alg_rank A s (get_user_interactions (train_set st) (py_str x)) l n f = Inr r"
      by blast
    then show ?thesis using c unfolding rank_contract_def by blast
  qed
  show "non_increasing (map score r)" using p by simp
  show "\<forall>k. n = Some k \<longrightarrow> 0 \<le> k \<longrightarrow> int (length r) \<le> k" using p by simp
  show "\<forall>e \<in> set r. user_id e = py_str x"
    using p by (auto simp: user_id_column_def get_user_interactions_def)
qed

lemma rank_loop_user_records:
  assumes c: "rank_contract A"
    and d: "distinct (map py_str us)"
    and loop: "for_loop (rank_user A l t n m) st acc us = Inr (rk, s')"
  shows "\<exists>B. user_records rk u = user_records acc u @ B
            \<and> non_increasing (map score B)
            \<and> (\<forall>k. n = Some k \<longrightarrow> 0 \<le> k \<longrightarrow> int (length B) \<le> k)
            \<and> (u \<notin> py_str ` set us \<longrightarrow> B = [])"
  using d loop
proof (induction us arbitrary: st acc)
  case Nil
  then show ?case by (simp add: non_increasing_def)
next
  case (Cons x xs)
  from Cons.prems(2) obtain r s1 where b: "rank_user A l t n m st x = Inr (r, s1)"
    and rest: "for_loop (rank_user A l t n m) s1 (acc @ r) xs = Inr (rk, s')"
    by (cases "rank_user A l t n m st x") (auto split: prod.splits)
  note blk = rank_user_block [OF c b]
  have dx: "distinct (map py_str xs)" and nx: "py_str x \<notin> py_str ` set xs"
    using Cons.prems(1) by simp_all
  from Cons.IH [OF dx rest] obtain B where B: "user_records rk u = user_records (acc @ r) u @ B"
    "non_increasing (map score B)" "\<forall>k. n = Some k \<longrightarrow> 0 \<le> k \<longrightarrow> int (length B) \<le> k"
    "u \<notin> py_str ` set xs \<longrightarrow> B = []"
    by blast
  show ?case
  proof (cases "u = py_str x")
    case True
    then have "B = []" using B(4) nx by simp
    moreover have "user_records r u = r" using blk(3) True by (simp add: user_records_all)
    ultimately have "user_records rk u = user_records acc u @ r"
      using B(1) by (simp add: user_records_append)
    then show ?thesis using blk(1,2) True by (intro exI [of _ r]) simp
  next
    case False
    have "user_records r u = []" by (rule user_records_none [OF blk(3) False])
    then have "user_records rk u = user_records acc u @ B"
      using B(1) by (simp add: user_records_append)
    then show ?thesis using B(2,3,4) False by (intro exI [of _ B]) simp
  qed
qed

text \<open>
  When the users iterated have pairwise distinct string forms, as they do when
  \<open>user_id_list\<close> is omitted, each user's records in the rank are by descending score
  and at most \<open>n_recs\<close>.
\<close>

lemma rank_ordered_for_distinct_string_forms:
  assumes c: "rank_contract A"
    and d: "distinct (map py_str (all_users_of it test ids))"
    and r: "ContentBasedRS_rank it A st test n ids m = Inr (rk, st')"
  shows "non_increasing (map score (user_records rk u))
       \<and> (\<forall>k. n = Some k \<longrightarrow> 0 \<le> k \<longrightarrow> int (length (user_records rk u)) \<le> k)"
proof -
  from r obtain l s' where loop:
    "for_loop (rank_user A l test n m) st [] (all_users_of it test ids) = Inr (rk, s')"
    by (auto simp: ContentBasedRS_rank_def from_list_def Let_def split: if_splits sum.splits)
  from rank_loop_user_records [OF c d loop, of u] show ?thesis
    by (auto simp: user_records_def)
qed

lemma all_users_of_test_set_distinct:
  assumes "set_iteration it"
  shows "distinct (map py_str (all_users_of it test None))"
proof -
  have "distinct (it (map PStr (user_id_column test)))"
    and s: "set (it (map PStr (user_id_column test))) = set (map PStr (user_id_column test))"
    using assms by (simp_all add: set_iteration_def)
  moreover have "inj_on py_str (set (it (map PStr (user_id_column test))))"
    unfolding s by (auto simp: inj_on_def)
  ultimately show ?thesis by (simp add: all_users_of_def distinct_map)
qed

lemma toy_rank_contract: "rank_contract toy_alg"
proof -
  have "non_increasing (map score (top_n n (sort_key (\<lambda>r. - score r) xs)))" for n and xs :: ratings
  proof -
    have "sorted (map (\<lambda>r. - score r) (sort_key (\<lambda>r. - score r) xs))" by simp
    then have "sorted_wrt (\<lambda>a b. score b \<le> score a) (sort_key (\<lambda>r. - score r) xs)"
      by (simp add: sorted_wrt_map)
    then have "sorted_wrt (\<lambda>a b. score b \<le> score a) (top_n n (sort_key (\<lambda>r. - score r) xs))"
      by (cases n) (simp_all add: top_n_def sorted_wrt_take)
    then show ?thesis by (simp add: non_increasing_def sorted_wrt_map)
  qed
  moreover have "int (length (top_n (Some k) xs)) \<le> k" if "0 \<le> k" for k and xs :: ratings
    using that by (simp add: top_n_def)
  moreover have "user_id r \<in> set (user_id_column tr)"
    if "r \<in> set (top_n n (sort_key (\<lambda>r. - score r) (toy_predict s tr c f)))" for r n s tr c f
  proof -
    have "r \<in> set (toy_predict s tr c f)"
      using that by (cases n) (auto simp: top_n_def dest: in_set_takeD)
    then show ?thesis by (auto simp: toy_predict_def user_id_column_def)
  qed
  ultimately show ?thesis
    unfolding rank_contract_def by (auto simp: toy_alg_def)
qed

text \<open>
  C6. The example algorithm keeps the contract of \<open>rank\<close>, and its call for user 1 with
  the cutoff 1 returns one record. For the identifier list \<open>[1, '1']\<close> the set of users
  has two elements with the string form \<open>'1'\<close>, so user 1 is ranked twice: with the cutoff
  1 the user has two records in the rank, and without a cutoff the scores of the user's
  records are 13, 11, 13, 11, which is not non-increasing.
\<close>

theorem rank_repeats_user_of_colliding_identifiers:
  "alg_rank toy_alg (heap toy_fitted ! 1) (get_user_interactions (train_set toy_fitted) ''1'') ()
       (Some 1) (filter_list_of (Some TestRatingsMethodology) ''1'' (train_set toy_fitted) toy_test)
     = Inr [row ''1'' ''b'' 13]
   \<and> dict_get (user_fit_dic toy_fitted) ''1'' = Some 1
   \<and> py_str (PInt 1) = ''1'' \<and> py_str (PStr ''1'') = ''1''
   \<and> remdups [PInt 1, PStr ''1''] = [PInt 1, PStr ''1'']
   \<and> user_records (fst (projr (ContentBasedRS_rank remdups toy_alg toy_fitted toy_test (Some 1)
        (Some [PInt 1, PStr ''1'']) (Some TestRatingsMethodology)))) ''1''
     = [row ''1'' ''b'' 13, row ''1'' ''b'' 13]
   \<and> map score (user_records (fst (projr (ContentBasedRS_rank remdups toy_alg toy_fitted toy_test
        None (Some [PInt 1, PStr ''1'']) (Some TestRatingsMethodology)))) ''1'')
     = [13, 11, 13, 11]
   \<and> \<not> non_increasing (map score (user_records (fst (projr (ContentBasedRS_rank remdups toy_alg
        toy_fitted toy_test None (Some [PInt 1, PStr ''1'']) (Some TestRatingsMethodology)))) ''1''))"
proof -
  have 1: "alg_rank toy_alg (heap toy_fitted ! 1) (get_user_interactions (train_set toy_fitted) ''1'') ()
       (Some 1) (filter_list_of (Some TestRatingsMethodology) ''1'' (train_set toy_fitted) toy_test)
     = Inr [row ''1'' ''b'' 13]"
    by (simp add: toy_rank_eval)
  have 2: "dict_get (user_fit_dic toy_fitted) ''1'' = Some 1"
    by (simp add: dict_get_def toy_fitted_registry)
  have 3: "py_str (PInt 1) = ''1''" "py_str (PStr ''1'') = ''1''"
    by (simp_all add: str_eval)
  have 4: "remdups [PInt 1, PStr ''1''] = [PInt 1, PStr ''1'']"
    by simp
  have 5: "user_records (fst (projr (ContentBasedRS_rank remdups toy_alg toy_fitted toy_test (Some 1)
        (Some [PInt 1, PStr ''1'']) (Some TestRatingsMethodology)))) ''1''
     = [row ''1'' ''b'' 13, row ''1'' ''b'' 13]"
    by (simp add: user_records_def toy_rank_eval str_eval)
  have 6: "map score (user_records (fst (projr (ContentBasedRS_rank remdups toy_alg toy_fitted toy_test
        None (Some [PInt 1, PStr ''1'']) (Some TestRatingsMethodology)))) ''1'')
     = [13, 11, 13, 11]"
    by (simp add: user_records_def toy_rank_eval str_eval)
  have 7: "\<not> non_increasing (map score (user_records (fst (projr (ContentBasedRS_rank remdups toy_alg
        toy_fitted toy_test None (Some [PInt 1, PStr ''1'']) (Some TestRatingsMethodology)))) ''1''))"
    unfolding 6 by (simp add: non_increasing_def)
  show ?thesis
    by (intro conjI 1 2 3 4 5 6 7)
qed

end
